theory Spec2Isabelle
  imports Complex_Main "HOL-Library.Multiset" "HOL-Library.Sublist"
begin

section \<open>Numbers\<close>

text \<open>
  The program is TypeScript; every numeric value is a JavaScript \<open>number\<close>, an IEEE 754
  binary64 value. A finite number is modelled by the real it denotes, and \<open>jsnum\<close> adds
  the two infinities and NaN. The two zeros are not told apart: the modelled code never
  divides by a computed zero and never inspects the sign of one.
\<close>

datatype jsnum = Fin real | PosInf | NegInf | NaN

text \<open>
  Rounding to the nearest integer, ties to the even one: the rounding of the
  significand.
\<close>

definition rne :: "real \<Rightarrow> int" where
  "rne y =
     (if y - of_int \<lfloor>y\<rfloor> < 1 / 2 then \<lfloor>y\<rfloor>
      else if 1 / 2 < y - of_int \<lfloor>y\<rfloor> then \<lfloor>y\<rfloor> + 1
      else if even \<lfloor>y\<rfloor> then \<lfloor>y\<rfloor> else \<lfloor>y\<rfloor> + 1)"

text \<open>
  The binary exponent of a double holding \<open>x\<close> (never below that of the subnormal
  numbers), and the spacing of the doubles at \<open>x\<close>: a significand of 53 bits.
\<close>

definition expo :: "real \<Rightarrow> int" where
  "expo x = max (- 1022) \<lfloor>log 2 \<bar>x\<bar>\<rfloor>"

definition ulp :: "real \<Rightarrow> real" where
  "ulp x = 2 powr (of_int (expo x) - 52)"

text \<open>
  \<open>dbl x\<close> is \<open>x\<close> rounded to the nearest double, ties to even, the exponent unbounded
  above; \<open>fl x\<close> is the result of an operation whose exact value is \<open>x\<close>: an infinity
  when the rounded value reaches \<open>2^1024\<close>. A numeric literal \<open>c\<close> of the source is the
  number \<open>dbl c\<close>.
\<close>

definition dbl :: "real \<Rightarrow> real" where
  "dbl x =
     (if x < 0 then - (of_int (rne (- x / ulp x)) * ulp x)
      else of_int (rne (x / ulp x)) * ulp x)"

definition huge :: real where
  "huge = 2 ^ 1024"

definition fl :: "real \<Rightarrow> jsnum" where
  "fl x = (if huge \<le> dbl x then PosInf else if dbl x \<le> - huge then NegInf else Fin (dbl x))"

text \<open>The arithmetic of \<open>number\<close>: \<open>-\<close>, \<open>+\<close>, \<open>*\<close>, \<open>/\<close>, \<open>Math.sqrt\<close>, \<open>Math.max\<close>, \<open><\<close>.\<close>

fun fneg :: "jsnum \<Rightarrow> jsnum" where
  "fneg (Fin x) = Fin (- x)"
| "fneg PosInf = NegInf"
| "fneg NegInf = PosInf"
| "fneg NaN = NaN"

fun fadd :: "jsnum \<Rightarrow> jsnum \<Rightarrow> jsnum" where
  "fadd (Fin x) (Fin y) = fl (x + y)"
| "fadd NaN b = NaN"
| "fadd a NaN = NaN"
| "fadd PosInf NegInf = NaN"
| "fadd NegInf PosInf = NaN"
| "fadd PosInf b = PosInf"
| "fadd a PosInf = PosInf"
| "fadd NegInf b = NegInf"
| "fadd a NegInf = NegInf"

definition fsub :: "jsnum \<Rightarrow> jsnum \<Rightarrow> jsnum" where
  "fsub a b = fadd a (fneg b)"

fun fmul :: "jsnum \<Rightarrow> jsnum \<Rightarrow> jsnum" where
  "fmul (Fin x) (Fin y) = fl (x * y)"
| "fmul NaN b = NaN"
| "fmul a NaN = NaN"
| "fmul (Fin x) PosInf = (if x = 0 then NaN else if 0 < x then PosInf else NegInf)"
| "fmul (Fin x) NegInf = (if x = 0 then NaN else if 0 < x then NegInf else PosInf)"
| "fmul PosInf (Fin y) = (if y = 0 then NaN else if 0 < y then PosInf else NegInf)"
| "fmul NegInf (Fin y) = (if y = 0 then NaN else if 0 < y then NegInf else PosInf)"
| "fmul PosInf PosInf = PosInf"
| "fmul NegInf NegInf = PosInf"
| "fmul PosInf NegInf = NegInf"
| "fmul NegInf PosInf = NegInf"

fun fdiv :: "jsnum \<Rightarrow> jsnum \<Rightarrow> jsnum" where
  "fdiv (Fin x) (Fin y) =
     (if y = 0 then (if x = 0 then NaN else if 0 < x then PosInf else NegInf)
      else fl (x / y))"
| "fdiv NaN b = NaN"
| "fdiv a NaN = NaN"
| "fdiv (Fin x) PosInf = Fin 0"
| "fdiv (Fin x) NegInf = Fin 0"
| "fdiv PosInf (Fin y) = (if 0 \<le> y then PosInf else NegInf)"
| "fdiv NegInf (Fin y) = (if 0 \<le> y then NegInf else PosInf)"
| "fdiv a b = NaN"

fun fsqrt :: "jsnum \<Rightarrow> jsnum" where
  "fsqrt (Fin x) = (if x < 0 then NaN else fl (sqrt x))"
| "fsqrt PosInf = PosInf"
| "fsqrt NegInf = NaN"
| "fsqrt NaN = NaN"

fun fmax :: "jsnum \<Rightarrow> jsnum \<Rightarrow> jsnum" where
  "fmax (Fin x) (Fin y) = Fin (max x y)"
| "fmax NaN b = NaN"
| "fmax a NaN = NaN"
| "fmax PosInf b = PosInf"
| "fmax a PosInf = PosInf"
| "fmax NegInf b = b"
| "fmax a NegInf = a"

fun js_less :: "jsnum \<Rightarrow> jsnum \<Rightarrow> bool" where
  "js_less (Fin x) (Fin y) = (x < y)"
| "js_less NaN b = False"
| "js_less a NaN = False"
| "js_less PosInf b = False"
| "js_less a NegInf = False"
| "js_less NegInf b = True"
| "js_less a PosInf = True"

text \<open>\<open>Math.pow(x, 2)\<close>, taken as the correctly rounded square.\<close>

definition fpow2 :: "jsnum \<Rightarrow> jsnum" where
  "fpow2 x = fmul x x"

text \<open>
  The frame score, the incident counters and the frame indices are integers far below
  \<open>2^53\<close>, on which the additions and multiplications of the source are exact. They
  are modelled with exact arithmetic (\<^typ>\<open>nat\<close> for what the source fills from
  \<open>.length\<close> and \<open>++\<close>). The averages over them are kept exact as well: the rounding
  of those quotients is outside the model. A division the source does not guard by
  control flow goes through \<open>js_div\<close>, whose result says which non-finite value
  JavaScript produces.
\<close>

text \<open>\<open>a / b\<close>: \<open>0/0\<close> is NaN, \<open>x/0\<close> is an infinity with the sign of \<open>x\<close>.\<close>

definition js_div :: "real \<Rightarrow> real \<Rightarrow> jsnum" where
  "js_div a b =
     (if b = 0 then (if a = 0 then NaN else if 0 < a then PosInf else NegInf)
      else Fin (a / b))"

text \<open>\<open>x > c\<close> for a finite \<open>c\<close>: every comparison with NaN is false.\<close>

fun js_gt :: "jsnum \<Rightarrow> real \<Rightarrow> bool" where
  "js_gt (Fin r) c = (c < r)"
| "js_gt PosInf c = True"
| "js_gt NegInf c = False"
| "js_gt NaN c = False"

text \<open>\<open>Math.round\<close>: the nearest integer, halves towards \<open>+\<infinity>\<close>; this is \<^const>\<open>round\<close>.\<close>

fun js_round :: "jsnum \<Rightarrow> jsnum" where
  "js_round (Fin r) = Fin (of_int (round r))"
| "js_round PosInf = PosInf"
| "js_round NegInf = NegInf"
| "js_round NaN = NaN"

section \<open>Data model (types/index.ts)\<close>

text \<open>A bounding box \<open>[x1, y1, x2, y2]\<close> and a point \<open>[x, y]\<close>.\<close>

type_synonym box = "real \<times> real \<times> real \<times> real"
type_synonym point = "real \<times> real"

record Detection =
  className :: string
  confidence :: real
  bbox :: box
  classId :: int
  center :: point

record FrameAnalysis =
  frameIndex :: nat
  score :: real
  detections :: "Detection list"
  vehicleCount :: nat
  personCount :: nat
  overlaps :: nat
  proximityRisks :: nat

datatype severity = Low | Medium | High

text \<open>
  \<open>ViolationData\<close>; the fields \<open>type\<close> and \<open>count\<close> are written \<open>vtype\<close> and
  \<open>vcount\<close>.
\<close>

record ViolationData =
  vtype :: string
  vcount :: jsnum
  severity :: severity

datatype riskLevel = LOW | MEDIUM | HIGH | CRITICAL

definition VEHICLE_CLASSES :: "string list" where
  "VEHICLE_CLASSES = [''car'', ''motorcycle'', ''bus'', ''truck'', ''bicycle'']"

section \<open>Geometry (utils/riskLogic.ts)\<close>

text \<open>
  The coordinates of a box are finite numbers. \<open>Math.max\<close> and \<open>Math.min\<close> of two of
  them are exact; every other operation rounds.

  Lines 12 to 19 of \<open>iou\<close>: the area of the intersection rectangle.
\<close>

fun interArea :: "box \<Rightarrow> box \<Rightarrow> jsnum" where
  "interArea (a0, a1, a2, a3) (b0, b1, b2, b3) =
     (let xA = max a0 b0;
          yA = max a1 b1;
          xB = min a2 b2;
          yB = min a3 b3;
          interW = fmax (Fin 0) (fsub (Fin xB) (Fin xA));
          interH = fmax (Fin 0) (fsub (Fin yB) (Fin yA))
      in fmul interW interH)"

text \<open>\<open>(box[2] - box[0]) * (box[3] - box[1])\<close>.\<close>

fun boxArea :: "box \<Rightarrow> jsnum" where
  "boxArea (x1, y1, x2, y2) = fmul (fsub (Fin x2) (Fin x1)) (fsub (Fin y2) (Fin y1))"

text \<open>The divisor of the ratio in the last line of \<open>iou\<close>.\<close>

definition unionArea :: "box \<Rightarrow> box \<Rightarrow> jsnum" where
  "unionArea boxA boxB = fsub (fadd (boxArea boxA) (boxArea boxB)) (interArea boxA boxB)"

text \<open>\<open>interArea === 0\<close> holds of the number zero only.\<close>

definition iou :: "box \<Rightarrow> box \<Rightarrow> jsnum" where
  "iou boxA boxB =
     (if interArea boxA boxB = Fin 0 then Fin 0
      else fdiv (interArea boxA boxB) (unionArea boxA boxB))"

fun getCenter :: "box \<Rightarrow> jsnum \<times> jsnum" where
  "getCenter (x1, y1, x2, y2) =
     (fdiv (fadd (Fin x1) (Fin x2)) (Fin 2), fdiv (fadd (Fin y1) (Fin y2)) (Fin 2))"

fun distance :: "jsnum \<times> jsnum \<Rightarrow> jsnum \<times> jsnum \<Rightarrow> jsnum" where
  "distance (p1x, p1y) (p2x, p2y) =
     fsqrt (fadd (fpow2 (fsub p1x p2x)) (fpow2 (fsub p1y p2y)))"



text \<open>Two boxes are disjoint when one lies beside, above or below the other.\<close>

fun disjointBoxes :: "box \<Rightarrow> box \<Rightarrow> bool" where
  "disjointBoxes (a0, a1, a2, a3) (b0, b1, b2, b3) =
     (a2 \<le> b0 \<or> b2 \<le> a0 \<or> a3 \<le> b1 \<or> b3 \<le> a1)"

section \<open>Frame risk (utils/riskLogic.ts)\<close>

text \<open>
  \<open>computeFrameRisk\<close>. The two nested loops thread the pair of the running score and
  the incident counter; the first runs over the indices \<open>i < j\<close> of the vehicle array,
  the second over the vehicles and the persons themselves. The literals \<open>0.1\<close>,
  \<open>0.5\<close> and \<open>0.2\<close> are the doubles nearest to them.
\<close>

definition computeFrameRisk :: "Detection list \<Rightarrow> real \<Rightarrow> real \<Rightarrow> FrameAnalysis" where
  "computeFrameRisk dets frameWidth frameHeight =
     (let vehicles = filter (\<lambda>d. className d \<in> set VEHICLE_CLASSES) dets;
          persons = filter (\<lambda>d. className d = ''person'') dets;
          score = 0 + 3 * real (length vehicles);
          score = score + 5 * real (length persons);
          (score, overlapCount) =
            fold (\<lambda>i. fold (\<lambda>j (score, overlapCount).
                    if js_gt (iou (bbox (vehicles ! i)) (bbox (vehicles ! j))) (dbl (1 / 10))
                    then (score + 20, overlapCount + 1)
                    else (score, overlapCount))
                  [i + 1 ..< length vehicles])
              [0 ..< length vehicles] (score, 0);
          (score, proximityCount) =
            fold (\<lambda>v. fold (\<lambda>p (score, proximityCount).
                    let cv = getCenter (bbox v);
                        cp = getCenter (bbox p);
                        dist = distance cv cp
                    in if js_less (fmul (Fin frameHeight) (Fin (dbl (5 / 10)))) (snd cp) \<and>
                          js_less dist (fmul (Fin frameWidth) (Fin (dbl (2 / 10))))
                       then (score + 30, proximityCount + 1)
                       else (score, proximityCount))
                  persons)
              vehicles (score, 0);
          score = max 0 (min score 100)
      in \<lparr>frameIndex = 0, score = score, detections = dets,
          vehicleCount = length vehicles, personCount = length persons,
          overlaps = overlapCount, proximityRisks = proximityCount\<rparr>)"

section \<open>Aggregation (utils/riskLogic.ts)\<close>

text \<open>
  \<open>aggregateVideoRisk\<close> returns the object \<open>{riskLevel, riskScore}\<close>, here a pair.
  The division is reached only past the early return for the empty array.
\<close>

definition aggregateVideoRisk :: "real list \<Rightarrow> riskLevel \<times> int" where
  "aggregateVideoRisk frameScores =
     (if length frameScores = 0 then (LOW, 0)
      else
        let avgScore = foldl (\<lambda>a b. a + b) 0 frameScores / real (length frameScores);
            level = (if avgScore < 20 then LOW
                     else if avgScore < 50 then MEDIUM
                     else if avgScore < 75 then HIGH
                     else CRITICAL)
        in (level, round avgScore))"

section \<open>Violation summary (utils/riskLogic.ts)\<close>

text \<open>
  \<open>generateViolations\<close>: \<open>push\<close> appends to the list built so far. The two averages
  divide by the length of the array with no guard.
\<close>

definition generateViolations :: "FrameAnalysis list \<Rightarrow> real \<Rightarrow> ViolationData list" where
  "generateViolations frameAnalyses avgScore =
     (let violations = [];
          totalOverlaps = foldl (\<lambda>sum f. sum + overlaps f) 0 frameAnalyses;
          totalProximity = foldl (\<lambda>sum f. sum + proximityRisks f) 0 frameAnalyses;
          avgVehicles = js_div (real (foldl (\<lambda>sum f. sum + vehicleCount f) 0 frameAnalyses))
                               (real (length frameAnalyses));
          avgPersons = js_div (real (foldl (\<lambda>sum f. sum + personCount f) 0 frameAnalyses))
                              (real (length frameAnalyses));
          violations =
            (if totalOverlaps > 0
             then violations @
                  [\<lparr>vtype = ''Vehicle Near-Collisions'', vcount = Fin (real totalOverlaps),
                    severity = (if totalOverlaps > 5 then High
                                else if totalOverlaps > 2 then Medium else Low)\<rparr>]
             else violations);
          violations =
            (if totalProximity > 0
             then violations @
                  [\<lparr>vtype = ''Pedestrian Proximity Risks'', vcount = Fin (real totalProximity),
                    severity = High\<rparr>]
             else violations);
          violations =
            (if js_gt avgVehicles 8
             then violations @
                  [\<lparr>vtype = ''High Traffic Congestion'', vcount = js_round avgVehicles,
                    severity = (if js_gt avgVehicles 15 then High else Medium)\<rparr>]
             else violations);
          violations =
            (if js_gt avgPersons 5
             then violations @
                  [\<lparr>vtype = ''Crowded Pedestrian Area'', vcount = js_round avgPersons,
                    severity = (if js_gt avgPersons 10 then High else Medium)\<rparr>]
             else violations);
          highRiskFrames = length (filter (\<lambda>f. score f > 60) frameAnalyses);
          violations =
            (if highRiskFrames > 3
             then violations @
                  [\<lparr>vtype = ''High-Risk Frame Clusters'', vcount = Fin (real highRiskFrames),
                    severity = High\<rparr>]
             else violations);
          violations =
            (if length violations = 0 \<and> avgScore > 10
             then violations @
                  [\<lparr>vtype = ''General Traffic Activity'', vcount = Fin (of_int (round avgScore)),
                    severity = Low\<rparr>]
             else violations)
      in violations)"

section \<open>Orchestrator (analyzeVideo)\<close>

record FrameStats =
  totalFrames :: nat
  processedFrames :: nat
  avgVehicles :: real
  avgPersons :: real
  maxScore :: real
  minScore :: real

record AnalysisResult =
  riskLevel :: riskLevel
  riskScore :: int
  violations :: "ViolationData list"
  frameStats :: FrameStats

text \<open>
  The detection source draws random numbers, so a run is modelled for an arbitrary
  outcome of it: \<open>detect frameIndex\<close> is the detection list the source returns for the
  frame (each index is asked for at most once). The frame cap and the stride are frame
  counts, \<^typ>\<open>nat\<close>. The state of the loop is the triple of \<open>frameAnalyses\<close>,
  \<open>frameScores\<close> and the values passed to \<open>onProgress\<close> so far; the file and the log
  lines play no part in the result.

  \<open>frameIndex % frameSkip\<close> is NaN for a stride of zero, and \<open>NaN !== 0\<close> holds.
  The progress value is \<open>(frameIndex / totalEstimatedFrames) * 100\<close> in double
  arithmetic, both operations rounding, then \<open>Math.round\<close> and \<open>Math.min\<close>, which
  are exact.
  The loop variable \<open>frameIndex\<close> is written \<open>fIndex\<close>.
\<close>

type_synonym loopState = "FrameAnalysis list \<times> real list \<times> int list"

definition frameWidth :: real where
  "frameWidth = 1920"

definition frameHeight :: real where
  "frameHeight = 1080"

function analyzeLoop ::
  "(nat \<Rightarrow> Detection list) \<Rightarrow> nat \<Rightarrow> nat \<Rightarrow> nat \<Rightarrow> nat \<Rightarrow> loopState \<Rightarrow> loopState" where
  "analyzeLoop detect maxFrames frameSkip totalEstimatedFrames fIndex
       (frameAnalyses, frameScores, calls) =
     (if fIndex < totalEstimatedFrames then
        (if frameSkip = 0 \<or> fIndex mod frameSkip \<noteq> 0 then
           analyzeLoop detect maxFrames frameSkip totalEstimatedFrames (fIndex + 1)
             (frameAnalyses, frameScores, calls)
         else if length (frameAnalyses @
                   [(computeFrameRisk (detect fIndex) frameWidth frameHeight)
                      \<lparr>frameIndex := fIndex\<rparr>]) \<ge> maxFrames then
           (frameAnalyses @
              [(computeFrameRisk (detect fIndex) frameWidth frameHeight)
                 \<lparr>frameIndex := fIndex\<rparr>],
            frameScores @
              [score (computeFrameRisk (detect fIndex) frameWidth frameHeight)],
            calls @
              [min 95 (round (dbl (dbl (real fIndex / real totalEstimatedFrames) * 100)))])
         else
           analyzeLoop detect maxFrames frameSkip totalEstimatedFrames (fIndex + 1)
             (frameAnalyses @
                [(computeFrameRisk (detect fIndex) frameWidth frameHeight)
                   \<lparr>frameIndex := fIndex\<rparr>],
              frameScores @
                [score (computeFrameRisk (detect fIndex) frameWidth frameHeight)],
              calls @
                [min 95 (round (dbl (dbl (real fIndex / real totalEstimatedFrames) * 100)))]))
      else (frameAnalyses, frameScores, calls))"
  by pat_completeness auto
termination
  by (relation "measure (\<lambda>(detect, maxFrames, frameSkip, total, fIndex, st).
        total - fIndex)") auto

text \<open>The loop of a run, from frame 0 with nothing accumulated.\<close>

definition processFrames :: "(nat \<Rightarrow> Detection list) \<Rightarrow> nat \<Rightarrow> nat \<Rightarrow> loopState" where
  "processFrames detect maxFrames frameSkip =
     analyzeLoop detect maxFrames frameSkip (maxFrames * frameSkip) 0 ([], [], [])"

text \<open>
  \<open>analyzeVideo\<close> returns the result record; the model pairs it with the sequence of
  values the progress callback received.
\<close>

definition analyzeVideo ::
  "(nat \<Rightarrow> Detection list) \<Rightarrow> nat \<Rightarrow> nat \<Rightarrow> int list \<times> AnalysisResult" where
  "analyzeVideo detect maxFrames frameSkip =
     (let totalEstimatedFrames = maxFrames * frameSkip;
          (frameAnalyses, frameScores, calls) = processFrames detect maxFrames frameSkip;
          calls = calls @ [100]
      in if length frameAnalyses = 0 then
           (calls,
            \<lparr>riskLevel = LOW, riskScore = 0, violations = [],
             frameStats = \<lparr>totalFrames = 0, processedFrames = 0, avgVehicles = 0,
                           avgPersons = 0, maxScore = 0, minScore = 0\<rparr>\<rparr>)
         else
           let (level, rscore) = aggregateVideoRisk frameScores;
               vs = generateViolations frameAnalyses (of_int rscore);
               avgV = real (foldl (\<lambda>sum f. sum + vehicleCount f) 0 frameAnalyses)
                        / real (length frameAnalyses);
               avgP = real (foldl (\<lambda>sum f. sum + personCount f) 0 frameAnalyses)
                        / real (length frameAnalyses);
               maxS = Max (set frameScores);
               minS = Min (set frameScores)
           in (calls,
               \<lparr>riskLevel = level, riskScore = rscore, violations = vs,
                frameStats = \<lparr>totalFrames = totalEstimatedFrames,
                              processedFrames = length frameAnalyses,
                              avgVehicles = of_int (round (avgV * 10)) / 10,
                              avgPersons = of_int (round (avgP * 10)) / 10,
                              maxScore = maxS, minScore = minS\<rparr>\<rparr>))"

section \<open>Vocabulary of the specification\<close>

text \<open>The arithmetic mean of a list of frame scores.\<close>

definition mean :: "real list \<Rightarrow> real" where
  "mean xs = sum_list xs / real (length xs)"

text \<open>The tier table: LOW on [0, 20), MEDIUM on [20, 50), HIGH on [50, 75), CRITICAL on [75, 100].\<close>

definition tierOfMean :: "real \<Rightarrow> riskLevel option" where
  "tierOfMean m =
     (if 0 \<le> m \<and> m < 20 then Some LOW
      else if 20 \<le> m \<and> m < 50 then Some MEDIUM
      else if 50 \<le> m \<and> m < 75 then Some HIGH
      else if 75 \<le> m \<and> m \<le> 100 then Some CRITICAL
      else None)"

text \<open>Frame scores lie in [0, 100].\<close>

definition validScores :: "real list \<Rightarrow> bool" where
  "validScores xs = list_all (\<lambda>x. 0 \<le> x \<and> x \<le> 100) xs"

text \<open>The six rule names of the violation summarizer, in rule order.\<close>

definition ruleNames :: "string list" where
  "ruleNames = [''Vehicle Near-Collisions'', ''Pedestrian Proximity Risks'',
                ''High Traffic Congestion'', ''Crowded Pedestrian Area'',
                ''High-Risk Frame Clusters'', ''General Traffic Activity'']"

text \<open>
  The six rules as the specification lists them: each of rules 1 to 5 contributes its
  entry or nothing, the fallback fires when none of them did and the aggregate score
  exceeds 10, and the output is their concatenation in rule order.
\<close>

definition specViolations :: "FrameAnalysis list \<Rightarrow> real \<Rightarrow> ViolationData list" where
  "specViolations fas aggregate =
     (let totalOverlaps = sum_list (map overlaps fas);
          totalProximity = sum_list (map proximityRisks fas);
          meanVehicles = real (sum_list (map vehicleCount fas)) / real (length fas);
          meanPersons = real (sum_list (map personCount fas)) / real (length fas);
          highRisk = length (filter (\<lambda>f. score f > 60) fas);
          rule1 = (if totalOverlaps > 0
                   then [\<lparr>vtype = ruleNames ! 0, vcount = Fin (real totalOverlaps),
                          severity = (if totalOverlaps > 5 then High
                                      else if totalOverlaps > 2 then Medium else Low)\<rparr>]
                   else []);
          rule2 = (if totalProximity > 0
                   then [\<lparr>vtype = ruleNames ! 1, vcount = Fin (real totalProximity),
                          severity = High\<rparr>]
                   else []);
          rule3 = (if meanVehicles > 8
                   then [\<lparr>vtype = ruleNames ! 2, vcount = Fin (of_int (round meanVehicles)),
                          severity = (if meanVehicles > 15 then High else Medium)\<rparr>]
                   else []);
          rule4 = (if meanPersons > 5
                   then [\<lparr>vtype = ruleNames ! 3, vcount = Fin (of_int (round meanPersons)),
                          severity = (if meanPersons > 10 then High else Medium)\<rparr>]
                   else []);
          rule5 = (if highRisk > 3
                   then [\<lparr>vtype = ruleNames ! 4, vcount = Fin (real highRisk),
                          severity = High\<rparr>]
                   else []);
          rule6 = (if rule1 = [] \<and> rule2 = [] \<and> rule3 = [] \<and> rule4 = [] \<and> rule5 = []
                      \<and> aggregate > 10
                   then [\<lparr>vtype = ruleNames ! 5, vcount = Fin (of_int (round aggregate)),
                          severity = Low\<rparr>]
                   else [])
      in rule1 @ rule2 @ rule3 @ rule4 @ rule5 @ rule6)"

text \<open>
  The geometry of the specification, in the arithmetic of the program: the centre of a
  box is the midpoint of its corners, the distance of two points is the Euclidean
  distance, and the IoU of two boxes is the area of their common rectangle over the sum
  of their areas less that area, an intersection area of exactly 0 giving 0 without the
  ratio.
\<close>

fun midpoint :: "box \<Rightarrow> jsnum \<times> jsnum" where
  "midpoint (x1, y1, x2, y2) =
     (fdiv (fadd (Fin x1) (Fin x2)) (Fin 2), fdiv (fadd (Fin y1) (Fin y2)) (Fin 2))"

fun euclidean :: "jsnum \<times> jsnum \<Rightarrow> jsnum \<times> jsnum \<Rightarrow> jsnum" where
  "euclidean (px, py) (qx, qy) =
     fsqrt (fadd (fmul (fsub px qx) (fsub px qx)) (fmul (fsub py qy) (fsub py qy)))"

fun overlapRatio :: "box \<Rightarrow> box \<Rightarrow> jsnum" where
  "overlapRatio (a0, a1, a2, a3) (b0, b1, b2, b3) =
     (let commonW = fmax (Fin 0) (fsub (Fin (min a2 b2)) (Fin (max a0 b0)));
          commonH = fmax (Fin 0) (fsub (Fin (min a3 b3)) (Fin (max a1 b1)));
          common = fmul commonW commonH;
          areaA = fmul (fsub (Fin a2) (Fin a0)) (fsub (Fin a3) (Fin a1));
          areaB = fmul (fsub (Fin b2) (Fin b0)) (fsub (Fin b3) (Fin b1))
      in if common = Fin 0 then Fin 0
         else fdiv common (fsub (fadd areaA areaB) common))"

text \<open>
  The reference algorithm of the frame risk evaluator, from the specification: the base
  score, 20 for each unordered pair of distinct vehicles (positions \<open>i < j\<close> of the
  vehicle list) whose IoU exceeds 0.1, 30 for each vehicle-person pair whose person's
  box centre lies below the middle of the frame (\<open>center.y > height/2\<close>) and closer to
  the vehicle's than 0.2 of the width, and the clamp to [0, 100].
\<close>

definition specFrameRisk :: "Detection list \<Rightarrow> real \<Rightarrow> real \<Rightarrow> FrameAnalysis" where
  "specFrameRisk ds width height =
     (let vehicles = filter (\<lambda>d. className d \<in>
                        {''car'', ''motorcycle'', ''bus'', ''truck'', ''bicycle''}) ds;
          persons = filter (\<lambda>d. className d = ''person'') ds;
          n = length vehicles;
          overlapPairs =
            filter (\<lambda>(i, j). i < j \<and>
                      js_less (Fin (dbl (1 / 10)))
                        (overlapRatio (bbox (vehicles ! i)) (bbox (vehicles ! j))))
              (List.product [0 ..< n] [0 ..< n]);
          proximityPairs =
            filter (\<lambda>(v, p).
                      js_less (fdiv (Fin height) (Fin 2)) (snd (midpoint (bbox p))) \<and>
                      js_less (euclidean (midpoint (bbox v)) (midpoint (bbox p)))
                        (fmul (Fin (dbl (2 / 10))) (Fin width)))
              (List.product vehicles persons);
          total = 3 * real (length vehicles) + 5 * real (length persons)
                  + 20 * real (length overlapPairs) + 30 * real (length proximityPairs)
      in \<lparr>frameIndex = 0,
          score = (if total < 0 then 0 else if total > 100 then 100 else total),
          detections = ds, vehicleCount = length vehicles, personCount = length persons,
          overlaps = length overlapPairs, proximityRisks = length proximityPairs\<rparr>)"

text \<open>
  Vocabulary of the claims about \<open>iou\<close>: one side of the intersection rectangle, the
  case of an intersection with positive sides \<open>w\<close> and \<open>h\<close>, and a coordinate whose
  square overflows.
\<close>

definition side :: "real \<Rightarrow> real \<Rightarrow> jsnum" where
  "side p q = fmax (Fin 0) (fsub (Fin p) (Fin q))"



section \<open>Vocabulary of the orchestrator's claims\<close>

text \<open>The frame analysis the loop stores for frame \<open>i\<close>.\<close>

definition frameAt :: "(nat \<Rightarrow> Detection list) \<Rightarrow> nat \<Rightarrow> FrameAnalysis" where
  "frameAt detect i = (computeFrameRisk (detect i) frameWidth frameHeight)\<lparr>frameIndex := i\<rparr>"

text \<open>The value the loop passes to the progress callback at frame \<open>i\<close>.\<close>

definition progressAt :: "nat \<Rightarrow> nat \<Rightarrow> int" where
  "progressAt nTotal i = min 95 (round (dbl (dbl (real i / real nTotal) * 100)))"

text \<open>Every \<open>frameSkip\<close>-th index, \<open>maxFrames\<close> of them.\<close>

definition retainedIndices :: "nat \<Rightarrow> nat \<Rightarrow> nat list" where
  "retainedIndices maxFrames frameSkip =
     (if frameSkip = 0 then [] else map (\<lambda>k. k * frameSkip) [0 ..< maxFrames])"

text \<open>The result of a run that processed no frame.\<close>

definition degenerateResult :: AnalysisResult where
  "degenerateResult =
     \<lparr>riskLevel = LOW, riskScore = 0, violations = [],
      frameStats = \<lparr>totalFrames = 0, processedFrames = 0, avgVehicles = 0,
                    avgPersons = 0, maxScore = 0, minScore = 0\<rparr>\<rparr>"

text \<open>The frame scores a run accumulated.\<close>

definition processedScores :: "(nat \<Rightarrow> Detection list) \<Rightarrow> nat \<Rightarrow> nat \<Rightarrow> real list" where
  "processedScores detect maxFrames frameSkip = fst (snd (processFrames detect maxFrames frameSkip))"

text \<open>The order of the tiers.\<close>

fun levelRank :: "riskLevel \<Rightarrow> nat" where
  "levelRank LOW = 0"
| "levelRank MEDIUM = 1"
| "levelRank HIGH = 2"
| "levelRank CRITICAL = 3"

text \<open>
  The progress value as the specification writes it, \<open>min(95, processed/total \<times> 100)\<close>,
  in double arithmetic, with no rounding to an integer.
\<close>

definition claimedProgress :: "nat \<Rightarrow> nat \<Rightarrow> real" where
  "claimedProgress processed nTotal = min 95 (dbl (dbl (real processed / real nTotal) * 100))"

text \<open>A detection source that finds nothing.\<close>

definition noDetections :: "nat \<Rightarrow> Detection list" where
  "noDetections i = []"

section \<open>Two concrete runs\<close>

text \<open>
  Detections of the shape the simulated detector produces for a 1920 by 1080 frame: a
  car 200 wide and 150 high, and a person 60 wide and 100 high whose box centre lies
  above the middle of the frame.
\<close>

definition vehicleAt :: "real \<Rightarrow> Detection" where
  "vehicleAt x =
     \<lparr>className = ''car'', confidence = 9 / 10, bbox = (x, 300, x + 200, 450),
      classId = 2, center = (x + 100, 375)\<rparr>"

definition personAt :: "real \<Rightarrow> Detection" where
  "personAt x =
     \<lparr>className = ''person'', confidence = 8 / 10, bbox = (x, 440, x + 60, 540),
      classId = 0, center = (x + 30, 490)\<rparr>"

text \<open>
  Run A (2 frames, stride 1): two cars in frame 0; six cars and three persons in frame 1.
  Run B (1 frame): five cars and one person.
\<close>

definition runA :: "nat \<Rightarrow> Detection list" where
  "runA i =
     (if i = 0 then [vehicleAt 0, vehicleAt 300]
      else [vehicleAt 0, vehicleAt 300, vehicleAt 600, vehicleAt 900, vehicleAt 1200,
            vehicleAt 1500, personAt 100, personAt 700, personAt 1300])"

definition runB :: "nat \<Rightarrow> Detection list" where
  "runB i =
     [vehicleAt 0, vehicleAt 300, vehicleAt 600, vehicleAt 900, vehicleAt 1200,
      personAt 100]"

section \<open>Rounding to the nearest double\<close>

lemma rne_of_int: "rne (of_int n) = n"
  by (simp add: rne_def)

lemma rne_floor_le: "\<lfloor>y\<rfloor> \<le> rne y"
  by (simp add: rne_def)

lemma rne_le_floor_Suc: "rne y \<le> \<lfloor>y\<rfloor> + 1"
  by (simp add: rne_def)

lemma rne_mono:
  assumes "x \<le> y"
  shows "rne x \<le> rne y"
proof (cases "\<lfloor>x\<rfloor> < \<lfloor>y\<rfloor>")
  case True
  have "rne x \<le> \<lfloor>x\<rfloor> + 1" by (rule rne_le_floor_Suc)
  also have "\<dots> \<le> \<lfloor>y\<rfloor>" using True by simp
  also have "\<dots> \<le> rne y" by (rule rne_floor_le)
  finally show ?thesis .
next
  case False
  with floor_mono [OF assms] have eq: "\<lfloor>x\<rfloor> = \<lfloor>y\<rfloor>" by simp
  show ?thesis
    using assms unfolding rne_def eq by (auto split: if_splits)
qed

lemma rne_le_int: "y \<le> of_int n \<Longrightarrow> rne y \<le> n"
  using rne_mono [of y "of_int n"] by (simp add: rne_of_int)

lemma rne_ge_int: "of_int n \<le> y \<Longrightarrow> n \<le> rne y"
  using rne_mono [of "of_int n" y] by (simp add: rne_of_int)

lemma expo_ge: "- 1022 \<le> expo x"
  by (simp add: expo_def)

lemma expo_minus: "expo (- x) = expo x"
  by (simp add: expo_def)

lemma ulp_minus: "ulp (- x) = ulp x"
  by (simp add: ulp_def expo_minus)

lemma ulp_pos: "0 < ulp x"
  by (simp add: ulp_def)

lemma floor_log2_bounds:
  assumes "0 < x"
  shows "2 powr of_int \<lfloor>log 2 x\<rfloor> \<le> x \<and> x < 2 powr (of_int \<lfloor>log 2 x\<rfloor> + 1)"
  using floor_log_eq_powr_iff [of x 2 "\<lfloor>log 2 x\<rfloor>"] assms by simp

lemma expo_upper:
  assumes "0 < x"
  shows "x < 2 powr (of_int (expo x) + 1)"
proof -
  have "x < 2 powr (of_int \<lfloor>log 2 x\<rfloor> + 1)"
    using floor_log2_bounds [OF assms] by simp
  also have "\<dots> \<le> 2 powr (of_int (expo x) + 1)"
    using assms by (intro powr_mono) (simp_all add: expo_def)
  finally show ?thesis .
qed

lemma expo_lower:
  assumes "0 < x" "- 1022 < expo x"
  shows "2 powr of_int (expo x) \<le> x"
proof -
  from assms have "expo x = \<lfloor>log 2 x\<rfloor>"
    by (simp add: expo_def max_def split: if_splits)
  then show ?thesis using floor_log2_bounds [OF assms(1)] by simp
qed

lemma expo_eqI:
  assumes "0 < x" "2 powr of_int e \<le> x" "x < 2 powr (of_int e + 1)" "- 1022 \<le> e"
  shows "expo x = e"
proof -
  have "\<lfloor>log 2 x\<rfloor> = e"
    using floor_log_eq_powr_iff [of x 2 e] assms by simp
  then show ?thesis using assms(1,4) by (simp add: expo_def)
qed

lemma expo_subnormal:
  assumes "0 < x" "x < 2 powr (- 1022)"
  shows "expo x = - 1022"
proof -
  have "log 2 x < - 1022"
    using assms by (simp add: log_less_iff)
  then have "\<lfloor>log 2 x\<rfloor> < - 1022"
    by (simp add: floor_less_iff)
  then show ?thesis using assms(1) by (simp add: expo_def)
qed

lemma expo_mono:
  assumes "0 < x" "x \<le> y"
  shows "expo x \<le> expo y"
proof -
  have "log 2 x \<le> log 2 y" using assms by (intro log_mono) simp_all
  then have "\<lfloor>log 2 x\<rfloor> \<le> \<lfloor>log 2 y\<rfloor>" by (rule floor_mono)
  then show ?thesis using assms by (simp add: expo_def)
qed

lemma ulp_scale53: "2 ^ 53 * ulp x = 2 powr (of_int (expo x) + 1)"
proof -
  have "(2::real) ^ 53 = 2 powr 53" by simp
  then have "2 ^ 53 * ulp x = 2 powr 53 * 2 powr (of_int (expo x) - 52)"
    by (simp only: ulp_def)
  also have "\<dots> = 2 powr (53 + (of_int (expo x) - 52))"
    by (simp only: powr_add)
  finally show ?thesis by (simp add: algebra_simps)
qed

lemma ulp_scale52: "2 ^ 52 * ulp x = 2 powr of_int (expo x)"
proof -
  have "(2::real) ^ 52 = 2 powr 52" by simp
  then have "2 ^ 52 * ulp x = 2 powr 52 * 2 powr (of_int (expo x) - 52)"
    by (simp only: ulp_def)
  also have "\<dots> = 2 powr (52 + (of_int (expo x) - 52))"
    by (simp only: powr_add)
  finally show ?thesis by (simp add: algebra_simps)
qed

lemma dbl_zero: "dbl 0 = 0"
  by (simp add: dbl_def rne_def)

lemma dbl_minus: "dbl (- x) = - dbl x"
  by (cases "x = 0") (auto simp: dbl_def ulp_minus dbl_zero rne_def)

lemma dbl_pos_def: "0 \<le> x \<Longrightarrow> dbl x = of_int (rne (x / ulp x)) * ulp x"
  by (simp add: dbl_def)

lemma dbl_nonneg:
  assumes "0 \<le> x"
  shows "0 \<le> dbl x"
proof -
  have "0 \<le> x / ulp x" using assms ulp_pos [of x] by simp
  then have "0 \<le> rne (x / ulp x)" using rne_ge_int [of 0] by simp
  then show ?thesis using ulp_pos [of x] assms by (simp add: dbl_pos_def)
qed

lemma dbl_upper:
  assumes "0 < x"
  shows "dbl x \<le> 2 powr (of_int (expo x) + 1)"
proof -
  have "x < 2 ^ 53 * ulp x"
    using expo_upper [OF assms] by (simp only: ulp_scale53)
  then have "x / ulp x \<le> of_int (2 ^ 53)"
    using ulp_pos [of x] by (simp add: divide_le_eq)
  then have "rne (x / ulp x) \<le> 2 ^ 53" by (rule rne_le_int)
  then have "of_int (rne (x / ulp x)) \<le> (2 ^ 53 :: real)"
    by (metis of_int_le_iff of_int_numeral of_int_power)
  then have "of_int (rne (x / ulp x)) * ulp x \<le> 2 ^ 53 * ulp x"
    using ulp_pos [of x] by (simp add: mult_right_mono)
  also have "\<dots> = 2 powr (of_int (expo x) + 1)" by (rule ulp_scale53)
  finally show ?thesis using assms by (simp only: dbl_pos_def less_imp_le)
qed

lemma dbl_lower:
  assumes "0 < x" "- 1022 < expo x"
  shows "2 powr of_int (expo x) \<le> dbl x"
proof -
  have "2 ^ 52 * ulp x \<le> x"
    using expo_lower [OF assms] by (simp only: ulp_scale52)
  then have "of_int (2 ^ 52) \<le> x / ulp x"
    using ulp_pos [of x] by (simp add: le_divide_eq)
  then have "2 ^ 52 \<le> rne (x / ulp x)" by (rule rne_ge_int)
  then have "(2 ^ 52 :: real) \<le> of_int (rne (x / ulp x))"
    by (metis of_int_le_iff of_int_numeral of_int_power)
  then have "2 ^ 52 * ulp x \<le> of_int (rne (x / ulp x)) * ulp x"
    using ulp_pos [of x] by (simp add: mult_right_mono)
  then have "2 powr of_int (expo x) \<le> of_int (rne (x / ulp x)) * ulp x"
    by (simp only: ulp_scale52)
  then show ?thesis using assms by (simp only: dbl_pos_def less_imp_le)
qed

lemma dbl_mono_pos:
  assumes "0 < x" "x \<le> y"
  shows "dbl x \<le> dbl y"
proof (cases "expo x = expo y")
  case True
  then have u: "ulp x = ulp y" by (simp add: ulp_def)
  have "x / ulp y \<le> y / ulp y"
    using assms ulp_pos [of y] by (simp add: divide_right_mono)
  then have "rne (x / ulp y) \<le> rne (y / ulp y)" by (rule rne_mono)
  then have "of_int (rne (x / ulp y)) * ulp y \<le> of_int (rne (y / ulp y)) * ulp y"
    using ulp_pos [of y] by (simp add: mult_right_mono)
  then show ?thesis using assms by (simp add: dbl_pos_def u)
next
  case False
  with expo_mono [OF assms] have lt: "expo x < expo y" by simp
  have y: "0 < y" using assms by simp
  have "- 1022 < expo y" using lt expo_ge [of x] by simp
  from dbl_lower [OF y this] have "2 powr of_int (expo y) \<le> dbl y" .
  moreover have "(2::real) powr (of_int (expo x) + 1) \<le> 2 powr of_int (expo y)"
    using lt by (intro powr_mono) simp_all
  ultimately show ?thesis using dbl_upper [OF assms(1)] by linarith
qed

lemma dbl_mono:
  assumes "x \<le> y"
  shows "dbl x \<le> dbl y"
proof -
  consider "0 < x" | "x \<le> 0" "0 \<le> y" | "y < 0" by linarith
  then show ?thesis
  proof cases
    case 1
    then show ?thesis using assms by (rule dbl_mono_pos)
  next
    case 2
    have "dbl x \<le> 0" using dbl_nonneg [of "- x"] 2(1) by (simp add: dbl_minus)
    moreover have "0 \<le> dbl y" using 2(2) by (rule dbl_nonneg)
    ultimately show ?thesis by simp
  next
    case 3
    have "dbl (- y) \<le> dbl (- x)" using 3 assms by (intro dbl_mono_pos) simp_all
    then show ?thesis by (simp add: dbl_minus)
  qed
qed

lemma dbl_exact:
  assumes "x / ulp x = of_int n"
  shows "dbl x = x"
proof -
  have x: "x = of_int n * ulp x"
    using assms ulp_pos [of x] by (simp add: divide_eq_eq)
  show ?thesis
  proof (cases "x < 0")
    case False
    then have "dbl x = of_int (rne (x / ulp x)) * ulp x" by (simp add: dbl_def)
    also have "\<dots> = of_int n * ulp x" by (simp only: assms rne_of_int)
    finally show ?thesis using x by simp
  next
    case True
    have "- x / ulp x = of_int (- n)" using assms by simp
    then have "rne (- x / ulp x) = - n" by (simp only: rne_of_int)
    then have "dbl x = - (of_int (- n) * ulp x)" using True by (simp add: dbl_def)
    then show ?thesis using x by simp
  qed
qed





lemma dbl_in_binade:
  assumes "2 powr of_int e \<le> x" "x < 2 powr (of_int e + 1)" "- 1022 \<le> e"
  shows "dbl x = of_int (rne (x / 2 powr (of_int e - 52))) * 2 powr (of_int e - 52)"
proof -
  have x: "0 < x" using assms(1) by (rule less_le_trans [rotated]) simp
  have "expo x = e" by (rule expo_eqI [OF x assms])
  then show ?thesis using x by (simp add: dbl_pos_def ulp_def)
qed

lemma dbl_repr:
  assumes "\<bar>m\<bar> < 2 ^ 53" "- 1074 \<le> k"
  shows "dbl (of_int m * 2 powr of_int k) = of_int m * 2 powr of_int k"
proof (cases "m = 0")
  case True
  then show ?thesis by (simp add: dbl_zero)
next
  case False
  let ?x = "of_int m * 2 powr of_int k :: real"
  have ax: "\<bar>?x\<bar> = of_int \<bar>m\<bar> * 2 powr of_int k" by (simp add: abs_mult)
  have pos: "0 < \<bar>?x\<bar>" using False by simp
  have "of_int \<bar>m\<bar> < (2 ^ 53 :: real)"
    using assms(1) by (metis of_int_less_iff of_int_numeral of_int_power)
  then have "\<bar>?x\<bar> < 2 ^ 53 * 2 powr of_int k"
    unfolding ax by (simp add: mult_strict_right_mono)
  also have "\<dots> = 2 powr 53 * 2 powr of_int k" by simp
  also have "\<dots> = 2 powr (53 + of_int k)" by (simp only: powr_add)
  finally have "log 2 \<bar>?x\<bar> < 53 + of_int k"
    using pos by (simp add: log_less_iff)
  then have "\<lfloor>log 2 \<bar>?x\<bar>\<rfloor> < 53 + k"
    by (simp add: floor_less_iff)
  then have e: "expo ?x \<le> 52 + k" using assms(2) by (simp add: expo_def)
  define j where "j = nat (52 + k - expo ?x)"
  have j: "of_int k - (of_int (expo ?x) - 52) = real j"
    using e by (simp add: j_def)
  have "?x / ulp ?x = of_int m * (2 powr of_int k / 2 powr (of_int (expo ?x) - 52))"
    by (simp add: ulp_def)
  also have "\<dots> = of_int m * 2 powr (of_int k - (of_int (expo ?x) - 52))"
    by (simp only: powr_diff)
  also have "\<dots> = of_int m * 2 powr real j" by (simp only: j)
  also have "\<dots> = of_int m * 2 ^ j" by (simp add: powr_realpow)
  also have "\<dots> = of_int (m * 2 ^ j)" by simp
  finally show ?thesis by (rule dbl_exact)
qed

lemma dbl_of_int:
  assumes "\<bar>n\<bar> \<le> 2 ^ 53"
  shows "dbl (of_int n) = of_int n"
proof (cases "\<bar>n\<bar> < 2 ^ 53")
  case True
  from dbl_repr [OF True, of 0] show ?thesis by simp
next
  case False
  with assms have "\<bar>n\<bar> = 2 ^ 53" by simp
  then have n: "n = 2 ^ 53 \<or> n = - (2 ^ 53)" by linarith
  have "dbl (of_int 1 * 2 powr of_int 53) = of_int 1 * 2 powr of_int 53"
    by (rule dbl_repr) simp_all
  then have "dbl (2 ^ 53) = 2 ^ 53" by simp
  then show ?thesis using n dbl_minus [of "2 ^ 53"] by auto
qed

lemma dbl_pow2:
  assumes "- 1074 \<le> k"
  shows "dbl (2 powr of_int k) = 2 powr of_int k"
  using dbl_repr [of 1 k] assms by simp



lemma dbl_half: "dbl (1 / 2) = 1 / 2"
  using dbl_pow2 [of "- 1"] by (simp add: powr_neg_one)



lemma dbl_eval:
  assumes "2 powr of_int e \<le> x" "x < 2 powr (of_int e + 1)" "- 1022 \<le> e"
    and "rne (x / 2 powr (of_int e - 52)) = n"
  shows "dbl x = of_int n * 2 powr (of_int e - 52)"
  using dbl_in_binade [OF assms(1-3)] assms(4) by simp

section \<open>The geometry kernel in double arithmetic\<close>

lemma huge_pos: "0 < huge"
  by (simp add: huge_def)

lemma fl_not_NaN [simp]: "fl x \<noteq> NaN"
  by (simp add: fl_def)

lemma fl_zero [simp]: "fl 0 = Fin 0"
  using huge_pos by (simp add: fl_def dbl_zero)

lemma fl_Fin_iff: "fl x = Fin r \<longleftrightarrow> r = dbl x \<and> - huge < dbl x \<and> dbl x < huge"
  by (auto simp: fl_def)


lemma fl_NegInf_iff: "fl x = NegInf \<longleftrightarrow> dbl x \<le> - huge"
  using huge_pos by (auto simp: fl_def)


lemma fl_nonneg_cases:
  assumes "0 \<le> x"
  shows "(fl x = PosInf \<and> huge \<le> dbl x) \<or>
         (fl x = Fin (dbl x) \<and> 0 \<le> dbl x \<and> dbl x < huge)"
  using dbl_nonneg [OF assms] huge_pos by (auto simp: fl_def)

lemma fl_nonpos_cases:
  assumes "x \<le> 0"
  shows "fl x = NegInf \<or> (fl x = Fin (dbl x) \<and> dbl x \<le> 0)"
proof -
  have "dbl x \<le> 0" using dbl_nonneg [of "- x"] assms by (simp add: dbl_minus)
  then show ?thesis using huge_pos by (auto simp: fl_def)
qed

lemma fsub_Fin [simp]: "fsub (Fin p) (Fin q) = fl (p - q)"
  by (simp add: fsub_def)

lemma fadd_NaN_right [simp]: "fadd a NaN = NaN"
  by (cases a) simp_all

lemma fmul_NaN_right [simp]: "fmul a NaN = NaN"
  by (cases a) simp_all

lemma fdiv_NaN_right [simp]: "fdiv a NaN = NaN"
  by (cases a) simp_all


lemma fmul_commute: "fmul a b = fmul b a"
  by (cases a; cases b) (simp_all add: mult.commute)

lemma side_cases:
  "(side p q = Fin 0 \<and> (p \<le> q \<or> dbl (p - q) = 0)) \<or>
   (q < p \<and> side p q = PosInf \<and> huge \<le> dbl (p - q)) \<or>
   (q < p \<and> side p q = Fin (dbl (p - q)) \<and> 0 < dbl (p - q) \<and> dbl (p - q) < huge)"
proof (cases "q < p")
  case True
  then have "0 \<le> p - q" by simp
  from fl_nonneg_cases [OF this] True show ?thesis
    using huge_pos by (cases "dbl (p - q) = 0") (auto simp: side_def max_def)
next
  case False
  then have "p - q \<le> 0" by simp
  from fl_nonpos_cases [OF this] False show ?thesis
    by (auto simp: side_def max_def)
qed

lemma interArea_side:
  "interArea (a0, a1, a2, a3) (b0, b1, b2, b3) =
     fmul (side (min a2 b2) (max a0 b0)) (side (min a3 b3) (max a1 b1))"
  by (simp add: side_def Let_def)
















lemma fmul_Fin_D: "fmul x y = Fin r \<Longrightarrow> \<exists>p q. x = Fin p \<and> y = Fin q \<and> fl (p * q) = Fin r"
  by (cases x; cases y) (auto split: if_splits)

lemma side_le:
  assumes "p - q \<le> d" "fl d = Fin d'"
  shows "\<exists>w. side p q = Fin w \<and> 0 \<le> w \<and> (w = 0 \<or> (w = dbl (p - q) \<and> w \<le> d'))"
proof -
  have d': "d' = dbl d" "dbl d < huge" using assms(2) by (simp_all add: fl_Fin_iff)
  have "dbl (p - q) \<le> dbl d" using assms(1) by (rule dbl_mono)
  with d' have "dbl (p - q) < huge" "dbl (p - q) \<le> d'" by simp_all
  with side_cases [of p q] show ?thesis by auto
qed

lemma interArea_finite:
  assumes "boxArea a = Fin A"
  shows "\<exists>i. interArea a b = Fin i"
proof -
  obtain a0 a1 a2 a3 where a: "a = (a0, a1, a2, a3)" by (cases a)
  obtain b0 b1 b2 b3 where b: "b = (b0, b1, b2, b3)" by (cases b)
  from assms obtain wa ha where wa: "fl (a2 - a0) = Fin wa" and ha: "fl (a3 - a1) = Fin ha"
    and A: "fl (wa * ha) = Fin A"
    using fmul_Fin_D [of "fl (a2 - a0)" "fl (a3 - a1)" A] by (auto simp: a)
  have lt: "dbl (wa * ha) < huge" using A by (simp add: fl_Fin_iff)
  have "min a2 b2 - max a0 b0 \<le> a2 - a0" by simp
  from side_le [OF this wa] obtain w where
    w: "side (min a2 b2) (max a0 b0) = Fin w" "0 \<le> w" "w = 0 \<or> w \<le> wa"
    by blast
  have "min a3 b3 - max a1 b1 \<le> a3 - a1" by simp
  from side_le [OF this ha] obtain h where
    h: "side (min a3 b3) (max a1 b1) = Fin h" "0 \<le> h" "h = 0 \<or> h \<le> ha"
    by blast
  have I: "interArea a b = fl (w * h)"
    unfolding a b interArea_side w(1) h(1) by simp
  show ?thesis
  proof (cases "w = 0 \<or> h = 0")
    case True
    then show ?thesis unfolding I by auto
  next
    case False
    with w h have "w * h \<le> wa * ha" by (intro mult_mono) auto
    then have "dbl (w * h) \<le> dbl (wa * ha)" by (rule dbl_mono)
    with lt have "dbl (w * h) < huge" by simp
    moreover have "0 \<le> w * h" using w(2) h(2) by simp
    ultimately show ?thesis
      unfolding I using fl_nonneg_cases [of "w * h"] by auto
  qed
qed




lemma side_nonpos: "p \<le> q \<Longrightarrow> side p q = Fin 0"
  using side_cases [of p q] by auto

lemma iou_disjoint:
  assumes "disjointBoxes a b" "boxArea a = Fin A"
  shows "iou a b = Fin 0"
proof -
  obtain a0 a1 a2 a3 where a: "a = (a0, a1, a2, a3)" by (cases a)
  obtain b0 b1 b2 b3 where b: "b = (b0, b1, b2, b3)" by (cases b)
  from interArea_finite [OF assms(2)] obtain i where I: "interArea a b = Fin i" by blast
  then obtain p q where p: "side (min a2 b2) (max a0 b0) = Fin p"
    and q: "side (min a3 b3) (max a1 b1) = Fin q" and pq: "fl (p * q) = Fin i"
    using fmul_Fin_D [of "side (min a2 b2) (max a0 b0)" "side (min a3 b3) (max a1 b1)" i]
    unfolding a b interArea_side by auto
  from assms(1) have "min a2 b2 \<le> max a0 b0 \<or> min a3 b3 \<le> max a1 b1"
    by (auto simp: a b)
  then have "p = 0 \<or> q = 0" using side_nonpos p q by fastforce
  then have "i = 0" using pq by auto
  then show ?thesis using I by (simp add: iou_def)
qed


lemma fl_numeral:
  "(numeral k :: int) \<le> 2 ^ 53 \<Longrightarrow> fl (numeral k) = Fin (numeral k)"
proof -
  assume k: "(numeral k :: int) \<le> 2 ^ 53"
  then have d: "dbl (numeral k) = numeral k"
    using dbl_of_int [of "numeral k"] by simp
  have "(numeral k :: real) \<le> 2 ^ 53"
    using k by (metis of_int_le_iff of_int_numeral of_int_power)
  also have "\<dots> < huge" by (simp add: huge_def)
  finally have "(numeral k :: real) < huge" .
  moreover have "(0 :: real) \<le> numeral k" by simp
  then have "- huge < (numeral k :: real)"
    using huge_pos by linarith
  ultimately show ?thesis by (simp add: fl_Fin_iff d)
qed






section \<open>Claims about \<open>iou\<close>\<close>







section \<open>Claims about \<open>aggregateVideoRisk\<close>\<close>

lemma foldl_plus_sum_list: "foldl (\<lambda>a b. a + b) a xs = a + sum_list xs"
  for a :: "'a::monoid_add"
  by (induction xs arbitrary: a) (simp_all add: add.assoc)

lemma foldl_field_sum_list:
  "foldl (\<lambda>sum f. sum + g f) a xs = a + sum_list (map g xs)"
  for a :: nat
  by (induction xs arbitrary: a) simp_all

lemma aggregate_nonempty:
  "xs \<noteq> [] \<Longrightarrow>
   aggregateVideoRisk xs =
     ((if mean xs < 20 then LOW else if mean xs < 50 then MEDIUM
       else if mean xs < 75 then HIGH else CRITICAL), round (mean xs))"
  by (simp add: aggregateVideoRisk_def mean_def foldl_plus_sum_list Let_def)

lemma validScores_sum_bounds:
  "validScores xs \<Longrightarrow> 0 \<le> sum_list xs \<and> sum_list xs \<le> 100 * real (length xs)"
  by (induction xs) (auto simp: validScores_def)

lemma validScores_mean_bounds:
  assumes "validScores xs" "xs \<noteq> []"
  shows "0 \<le> mean xs \<and> mean xs \<le> 100"
proof -
  have n: "0 < real (length xs)" using assms(2) by simp
  from validScores_sum_bounds [OF assms(1)] n show ?thesis
    by (simp add: mean_def divide_le_eq)
qed

text \<open>
  C2. \<open>aggregateVideoRisk\<close> returns \<open>riskScore = round (mean)\<close> and the tier of the
  mean by the table LOW on [0, 20), MEDIUM on [20, 50), HIGH on [50, 75), CRITICAL on
  [75, 100] (every non-empty list of scores in [0, 100] has a mean in the table); the
  empty list returns (LOW, 0); and the five examples of the specification hold.
\<close>

theorem aggregateVideoRisk_spec:
  "aggregateVideoRisk [] = (LOW, 0) \<and>
   (xs \<noteq> [] \<longrightarrow> snd (aggregateVideoRisk xs) = round (mean xs)) \<and>
   (xs \<noteq> [] \<and> tierOfMean (mean xs) = Some t \<longrightarrow> fst (aggregateVideoRisk xs) = t) \<and>
   (xs \<noteq> [] \<and> validScores xs \<longrightarrow>
      tierOfMean (mean xs) = Some (fst (aggregateVideoRisk xs))) \<and>
   aggregateVideoRisk [10, 10, 10] = (LOW, 10) \<and>
   aggregateVideoRisk [30, 40] = (MEDIUM, 35) \<and>
   aggregateVideoRisk [60, 80] = (HIGH, 70) \<and>
   aggregateVideoRisk [90, 95] = (CRITICAL, 93)"
proof (intro conjI impI)
  show "aggregateVideoRisk [] = (LOW, 0)"
    by (simp add: aggregateVideoRisk_def)
next
  assume "xs \<noteq> []"
  then show "snd (aggregateVideoRisk xs) = round (mean xs)"
    by (simp add: aggregate_nonempty)
next
  assume "xs \<noteq> [] \<and> tierOfMean (mean xs) = Some t"
  then show "fst (aggregateVideoRisk xs) = t"
    by (auto simp: aggregate_nonempty tierOfMean_def split: if_splits)
next
  assume a: "xs \<noteq> [] \<and> validScores xs"
  then have "0 \<le> mean xs \<and> mean xs \<le> 100"
    using validScores_mean_bounds by blast
  with a show "tierOfMean (mean xs) = Some (fst (aggregateVideoRisk xs))"
    by (simp add: aggregate_nonempty tierOfMean_def)
next
  show "aggregateVideoRisk [10, 10, 10] = (LOW, 10)"
    by (simp add: aggregateVideoRisk_def)
next
  show "aggregateVideoRisk [30, 40] = (MEDIUM, 35)"
    by (simp add: aggregateVideoRisk_def)
next
  show "aggregateVideoRisk [60, 80] = (HIGH, 70)"
    by (simp add: aggregateVideoRisk_def)
next
  have "round (185 / 2 :: real) = 93"
    by (simp add: round_def floor_unique)
  then show "aggregateVideoRisk [90, 95] = (CRITICAL, 93)"
    by (simp add: aggregateVideoRisk_def)
qed

theorem aggregateVideoRisk_spec_witness:
  "snd (aggregateVideoRisk [19, 20]) = round (mean [19, 20]) \<and>
   fst (aggregateVideoRisk [19, 20]) = LOW \<and>
   tierOfMean (mean [60, 80]) = Some (fst (aggregateVideoRisk [60, 80]))"
  using aggregateVideoRisk_spec [of "[19, 20]" LOW] aggregateVideoRisk_spec [of "[60, 80]" HIGH]
  by (simp add: mean_def tierOfMean_def validScores_def)

text \<open>
  C8. \<open>aggregateVideoRisk\<close> is a function of its argument, and its result on a
  permutation of a list of frame scores is its result on the list.
\<close>

theorem aggregateVideoRisk_order_independent:
  "aggregateVideoRisk xs = aggregateVideoRisk xs \<and>
   (mset ys = mset xs \<longrightarrow> aggregateVideoRisk ys = aggregateVideoRisk xs)"
proof (intro conjI impI)
  show "aggregateVideoRisk xs = aggregateVideoRisk xs" by (rule refl)
next
  assume m: "mset ys = mset xs"
  then have "sum_list ys = sum_list xs"
    by (metis sum_mset_sum_list)
  moreover from m have "length ys = length xs"
    by (rule mset_eq_length)
  ultimately show "aggregateVideoRisk ys = aggregateVideoRisk xs"
    by (simp add: aggregateVideoRisk_def foldl_plus_sum_list)
qed

theorem aggregateVideoRisk_order_independent_witness:
  "mset [40, 30, 95] = mset [95, 30, 40 :: real] \<and>
   aggregateVideoRisk [40, 30, 95] = aggregateVideoRisk [95, 30, 40]"
proof -
  have h: "mset [40, 30, 95] = mset [95, 30, 40 :: real]" by simp
  show ?thesis
    using h aggregateVideoRisk_order_independent [of "[95, 30, 40]" "[40, 30, 95]"] by blast
qed

section \<open>Claims about \<open>generateViolations\<close>\<close>

lemma foldl_field_sum_list0:
  "foldl (\<lambda>sum f. sum + g f) 0 xs = sum_list (map g xs)"
  for g :: "'a \<Rightarrow> nat"
  by (simp add: foldl_field_sum_list)

lemma js_div_nonzero: "b \<noteq> 0 \<Longrightarrow> js_div a b = Fin (a / b)"
  by (simp add: js_div_def)

lemma ruleNames_nth:
  "ruleNames ! 0 = ''Vehicle Near-Collisions''"
  "ruleNames ! 1 = ''Pedestrian Proximity Risks''"
  "ruleNames ! 2 = ''High Traffic Congestion''"
  "ruleNames ! 3 = ''Crowded Pedestrian Area''"
  "ruleNames ! 4 = ''High-Risk Frame Clusters''"
  "ruleNames ! 5 = ''General Traffic Activity''"
  by (simp_all add: ruleNames_def)

lemma generateViolations_refines:
  assumes "fas \<noteq> []"
  shows "generateViolations fas a = specViolations fas a"
proof -
  have n: "real (length fas) \<noteq> 0" using assms by simp
  define tO where "tO = sum_list (map overlaps fas)"
  define tP where "tP = sum_list (map proximityRisks fas)"
  define mV where "mV = real (sum_list (map vehicleCount fas)) / real (length fas)"
  define mP where "mP = real (sum_list (map personCount fas)) / real (length fas)"
  define hR where "hR = length (filter (\<lambda>f. score f > 60) fas)"
  have code: "generateViolations fas a =
     (let violations = [];
          violations =
            (if tO > 0
             then violations @
                  [\<lparr>vtype = ''Vehicle Near-Collisions'', vcount = Fin (real tO),
                    severity = (if tO > 5 then High else if tO > 2 then Medium else Low)\<rparr>]
             else violations);
          violations =
            (if tP > 0
             then violations @
                  [\<lparr>vtype = ''Pedestrian Proximity Risks'', vcount = Fin (real tP),
                    severity = High\<rparr>]
             else violations);
          violations =
            (if js_gt (Fin mV) 8
             then violations @
                  [\<lparr>vtype = ''High Traffic Congestion'', vcount = js_round (Fin mV),
                    severity = (if js_gt (Fin mV) 15 then High else Medium)\<rparr>]
             else violations);
          violations =
            (if js_gt (Fin mP) 5
             then violations @
                  [\<lparr>vtype = ''Crowded Pedestrian Area'', vcount = js_round (Fin mP),
                    severity = (if js_gt (Fin mP) 10 then High else Medium)\<rparr>]
             else violations);
          violations =
            (if hR > 3
             then violations @
                  [\<lparr>vtype = ''High-Risk Frame Clusters'', vcount = Fin (real hR),
                    severity = High\<rparr>]
             else violations);
          violations =
            (if length violations = 0 \<and> a > 10
             then violations @
                  [\<lparr>vtype = ''General Traffic Activity'', vcount = Fin (of_int (round a)),
                    severity = Low\<rparr>]
             else violations)
      in violations)"
    unfolding generateViolations_def Let_def foldl_field_sum_list0 js_div_nonzero [OF n]
      tO_def [symmetric] tP_def [symmetric] mV_def [symmetric] mP_def [symmetric]
      hR_def [symmetric]
    by (rule refl)
  have spec: "specViolations fas a =
     (let rule1 = (if tO > 0
                   then [\<lparr>vtype = ruleNames ! 0, vcount = Fin (real tO),
                          severity = (if tO > 5 then High
                                      else if tO > 2 then Medium else Low)\<rparr>]
                   else []);
          rule2 = (if tP > 0
                   then [\<lparr>vtype = ruleNames ! 1, vcount = Fin (real tP),
                          severity = High\<rparr>]
                   else []);
          rule3 = (if mV > 8
                   then [\<lparr>vtype = ruleNames ! 2, vcount = Fin (of_int (round mV)),
                          severity = (if mV > 15 then High else Medium)\<rparr>]
                   else []);
          rule4 = (if mP > 5
                   then [\<lparr>vtype = ruleNames ! 3, vcount = Fin (of_int (round mP)),
                          severity = (if mP > 10 then High else Medium)\<rparr>]
                   else []);
          rule5 = (if hR > 3
                   then [\<lparr>vtype = ruleNames ! 4, vcount = Fin (real hR),
                          severity = High\<rparr>]
                   else []);
          rule6 = (if rule1 = [] \<and> rule2 = [] \<and> rule3 = [] \<and> rule4 = [] \<and> rule5 = []
                      \<and> a > 10
                   then [\<lparr>vtype = ruleNames ! 5, vcount = Fin (of_int (round a)),
                          severity = Low\<rparr>]
                   else [])
      in rule1 @ rule2 @ rule3 @ rule4 @ rule5 @ rule6)"
    unfolding specViolations_def Let_def
      tO_def [symmetric] tP_def [symmetric] mV_def [symmetric] mP_def [symmetric]
      hR_def [symmetric]
    by (rule refl)
  show ?thesis
    unfolding code spec Let_def ruleNames_nth
    by simp
qed

lemma subseq_ruleNames:
  "subseq (map vtype (specViolations fas a)) ruleNames"
proof -
  define tO where "tO = sum_list (map overlaps fas)"
  define tP where "tP = sum_list (map proximityRisks fas)"
  define mV where "mV = real (sum_list (map vehicleCount fas)) / real (length fas)"
  define mP where "mP = real (sum_list (map personCount fas)) / real (length fas)"
  define hR where "hR = length (filter (\<lambda>f. score f > 60) fas)"
  show ?thesis
    unfolding specViolations_def Let_def
      tO_def [symmetric] tP_def [symmetric] mV_def [symmetric] mP_def [symmetric]
      hR_def [symmetric]
    by (simp add: ruleNames_def)
qed

text \<open>
  C5. For every non-empty list of frame analyses and every aggregate score,
  \<open>generateViolations\<close> returns exactly the entries of the six rules (types, counts
  and severities as the specification gives them), and the types of its output follow
  the rule order.
\<close>

theorem generateViolations_rules:
  "fas \<noteq> [] \<longrightarrow>
     generateViolations fas a = specViolations fas a \<and>
     subseq (map vtype (generateViolations fas a)) ruleNames"
proof
  assume ne: "fas \<noteq> []"
  have "generateViolations fas a = specViolations fas a"
    using ne by (rule generateViolations_refines)
  then show "generateViolations fas a = specViolations fas a \<and>
     subseq (map vtype (generateViolations fas a)) ruleNames"
    by (simp add: subseq_ruleNames)
qed

theorem generateViolations_rules_witness:
  "generateViolations
     [\<lparr>frameIndex = 0, score = 70, detections = [], vehicleCount = 9, personCount = 2,
       overlaps = 3, proximityRisks = 1\<rparr>] 70 =
   [\<lparr>vtype = ''Vehicle Near-Collisions'', vcount = Fin 3, severity = Medium\<rparr>,
    \<lparr>vtype = ''Pedestrian Proximity Risks'', vcount = Fin 1, severity = High\<rparr>,
    \<lparr>vtype = ''High Traffic Congestion'', vcount = Fin 9, severity = Medium\<rparr>]"
  using generateViolations_rules
    [of "[\<lparr>frameIndex = 0, score = 70, detections = [], vehicleCount = 9, personCount = 2,
           overlaps = 3, proximityRisks = 1\<rparr>]" 70]
  by (simp add: specViolations_def ruleNames_def)

text \<open>
  C9. On the empty list \<open>generateViolations\<close> returns: the totals are 0, both
  averages are the NaN of \<open>0 / 0\<close>, which no guard accepts, and the result is empty or
  the single fallback entry, the latter exactly when the aggregate score exceeds 10.
\<close>

theorem generateViolations_empty:
  "generateViolations [] a =
     (if a > 10
      then [\<lparr>vtype = ''General Traffic Activity'', vcount = Fin (of_int (round a)),
             severity = Low\<rparr>]
      else []) \<and>
   js_div (real (foldl (\<lambda>sum f. sum + vehicleCount f) 0 []))
          (real (length ([] :: FrameAnalysis list))) = NaN \<and>
   \<not> js_gt NaN 8 \<and> \<not> js_gt NaN 5"
  by (simp add: generateViolations_def js_div_def)

theorem generateViolations_empty_witness:
  "generateViolations [] 35 =
     [\<lparr>vtype = ''General Traffic Activity'', vcount = Fin 35, severity = Low\<rparr>] \<and>
   generateViolations [] 10 = []"
  using generateViolations_empty [of 35] generateViolations_empty [of 10]
  by simp


section \<open>Claims about \<open>computeFrameRisk\<close>\<close>

text \<open>The geometry of the code is the geometry of the specification.\<close>

lemma js_gt_less: "js_gt x c = js_less (Fin c) x"
  by (cases x) simp_all

lemma iou_overlapRatio: "iou a b = overlapRatio a b"
  by (cases a, cases b) (simp add: iou_def unionArea_def Let_def)

lemma getCenter_midpoint: "getCenter b = midpoint b"
  by (cases b) simp

lemma distance_euclidean: "distance p q = euclidean p q"
  by (cases p, cases q) (simp add: fpow2_def)

lemma half_height: "fmul (Fin h) (Fin (dbl (5 / 10))) = fdiv (Fin h) (Fin 2)"
  by (simp add: dbl_half)

lemma fold_count_inner:
  "fold (\<lambda>j (s, c). if P j then (s + k, c + 1) else (s, c)) js (s, c) =
     (s + k * real (length (filter P js)), c + length (filter P js))"
  for s k :: real and c :: nat
  by (induction js arbitrary: s c) (simp_all add: algebra_simps)

lemma fold_count_outer:
  "fold (\<lambda>i. fold (\<lambda>j (s, c). if P i j then (s + k, c + 1) else (s, c)) (js i)) is (s, c) =
     (s + k * real (\<Sum>i\<leftarrow>is. length (filter (P i) (js i))),
      c + (\<Sum>i\<leftarrow>is. length (filter (P i) (js i))))"
  for s k :: real and c :: nat
  by (induction "is" arbitrary: s c) (simp_all add: fold_count_inner algebra_simps)

lemma length_filter_product:
  "length (filter (\<lambda>(x, y). Q x y) (List.product xs ys)) =
     (\<Sum>x\<leftarrow>xs. length (filter (Q x) ys))"
  by (induction xs) (simp_all add: filter_map comp_def)

lemma length_filter_above:
  assumes "i < n"
  shows "length (filter (\<lambda>j. i < j \<and> R j) [0 ..< n]) = length (filter R [Suc i ..< n])"
proof -
  have "[0 ..< Suc i + (n - Suc i)] = [0 ..< Suc i] @ [Suc i ..< Suc i + (n - Suc i)]"
    by (rule upt_add_eq_append) simp
  moreover have "Suc i + (n - Suc i) = n"
    using assms by simp
  ultimately have split: "[0 ..< n] = [0 ..< Suc i] @ [Suc i ..< n]"
    by simp
  have low: "filter (\<lambda>j. i < j \<and> R j) [0 ..< Suc i] = []"
    by (auto simp: filter_empty_conv)
  have high: "filter (\<lambda>j. i < j \<and> R j) [Suc i ..< n] = filter R [Suc i ..< n]"
    by (rule filter_cong) auto
  show ?thesis
    by (simp only: split filter_append low high append_Nil)
qed

lemma pairs_above_sum:
  "(\<Sum>i\<leftarrow>[0 ..< n]. length (filter (\<lambda>j. i < j \<and> R i j) [0 ..< n])) =
   (\<Sum>i\<leftarrow>[0 ..< n]. length (filter (R i) [Suc i ..< n]))"
  by (rule arg_cong [where f = sum_list], rule map_cong) (simp_all add: length_filter_above)

lemma clamp_spec:
  "max 0 (min t 100) = (if t < 0 then 0 else if t > 100 then 100 else t)"
  for t :: real
  by simp

lemma computeFrameRisk_refines: "computeFrameRisk ds w h = specFrameRisk ds w h"
proof -
  define vs where "vs = filter (\<lambda>d. className d \<in> set VEHICLE_CLASSES) ds"
  define ps where "ps = filter (\<lambda>d. className d = ''person'') ds"
  have vs': "filter (\<lambda>d. className d \<in>
                {''car'', ''motorcycle'', ''bus'', ''truck'', ''bicycle''}) ds = vs"
    by (simp add: vs_def VEHICLE_CLASSES_def)
  show ?thesis
    unfolding computeFrameRisk_def specFrameRisk_def Let_def vs' vs_def [symmetric]
      ps_def [symmetric] js_gt_less iou_overlapRatio getCenter_midpoint distance_euclidean
      half_height fmul_commute [of "Fin w"]
    by (simp add: fold_count_outer pairs_above_sum length_filter_product)
qed









section \<open>The loop of \<open>analyzeVideo\<close> in closed form\<close>

declare analyzeLoop.simps [simp del]

lemma analyzeLoop_exit:
  "\<not> fi < nTotal \<Longrightarrow> analyzeLoop d mf sk nTotal fi st = st"
  by (cases st) (simp add: analyzeLoop.simps)

lemma analyzeLoop_skip:
  "fi < nTotal \<Longrightarrow> sk = 0 \<or> fi mod sk \<noteq> 0 \<Longrightarrow>
   analyzeLoop d mf sk nTotal fi st = analyzeLoop d mf sk nTotal (fi + 1) st"
  by (cases st) (auto simp: analyzeLoop.simps)

lemma analyzeLoop_last:
  "fi < nTotal \<Longrightarrow> 0 < sk \<Longrightarrow> fi mod sk = 0 \<Longrightarrow> mf \<le> Suc (length fas) \<Longrightarrow>
   analyzeLoop d mf sk nTotal fi (fas, scs, calls) =
     (fas @ [frameAt d fi], scs @ [score (frameAt d fi)], calls @ [progressAt nTotal fi])"
  by (subst analyzeLoop.simps) (simp add: frameAt_def progressAt_def)

lemma analyzeLoop_more:
  "fi < nTotal \<Longrightarrow> 0 < sk \<Longrightarrow> fi mod sk = 0 \<Longrightarrow> \<not> mf \<le> Suc (length fas) \<Longrightarrow>
   analyzeLoop d mf sk nTotal fi (fas, scs, calls) =
     analyzeLoop d mf sk nTotal (fi + 1)
       (fas @ [frameAt d fi], scs @ [score (frameAt d fi)], calls @ [progressAt nTotal fi])"
  by (subst analyzeLoop.simps) (simp add: frameAt_def progressAt_def)

lemma multiple_in_window:
  fixes fi sk k :: nat
  assumes "0 < sk" "fi mod sk = 0" "fi \<le> k * sk" "k = 0 \<or> (k - 1) * sk < fi"
  shows "fi = k * sk"
proof -
  from assms(2) have "sk dvd fi" by (rule mod_0_imp_dvd)
  then obtain q where q: "fi = q * sk"
    by (auto simp: dvd_def mult.commute)
  from assms(3) q assms(1) have "q \<le> k" by simp
  moreover have "k \<le> q"
  proof (cases "k = 0")
    case True
    then show ?thesis by simp
  next
    case False
    with assms(4) q have "(k - 1) * sk < q * sk" by simp
    then have "k - 1 < q" by simp
    then show ?thesis by simp
  qed
  ultimately show ?thesis using q by simp
qed

lemma analyzeLoop_closed:
  "0 < sk \<Longrightarrow> nTotal = mf * sk \<Longrightarrow> length (fst st) \<le> mf \<Longrightarrow>
   fi \<le> length (fst st) * sk \<Longrightarrow>
   length (fst st) = 0 \<or> (length (fst st) - 1) * sk < fi \<Longrightarrow>
   analyzeLoop d mf sk nTotal fi st =
     (fst st @ map (frameAt d) (map (\<lambda>k. k * sk) [length (fst st) ..< mf]),
      fst (snd st) @ map (\<lambda>i. score (frameAt d i)) (map (\<lambda>k. k * sk) [length (fst st) ..< mf]),
      snd (snd st) @ map (progressAt nTotal) (map (\<lambda>k. k * sk) [length (fst st) ..< mf]))"
proof (induction d mf sk nTotal fi st rule: analyzeLoop.induct)
  case (1 d mf sk nTotal fi fas scs calls)
  let ?k = "length fas"
  have pos: "0 < sk" and tot: "nTotal = mf * sk" and kle: "?k \<le> mf"
    and up: "fi \<le> ?k * sk" and low: "?k = 0 \<or> (?k - 1) * sk < fi"
    using "1.prems" by simp_all
  show ?case
  proof (cases "fi < nTotal")
    case False
    with up tot kle pos have "?k * sk = mf * sk"
      by (metis le_antisym mult_le_mono1 not_le_imp_less le_trans)
    with pos have "?k = mf" by simp
    with False show ?thesis by (simp add: analyzeLoop_exit)
  next
    case inside: True
    show ?thesis
    proof (cases "fi mod sk = 0")
      case False
      have ne: "fi \<noteq> ?k * sk" using False by auto
      with up have up': "fi + 1 \<le> ?k * sk" by simp
      have low': "?k = 0 \<or> (?k - 1) * sk < fi + 1" using low by auto
      have "analyzeLoop d mf sk nTotal (fi + 1) (fas, scs, calls) =
        (fas @ map (frameAt d) (map (\<lambda>k. k * sk) [?k ..< mf]),
         scs @ map (\<lambda>i. score (frameAt d i)) (map (\<lambda>k. k * sk) [?k ..< mf]),
         calls @ map (progressAt nTotal) (map (\<lambda>k. k * sk) [?k ..< mf]))"
        using "1.IH"(1) [OF inside _ pos tot] False kle up' low' by simp
      then show ?thesis
        using inside False by (simp add: analyzeLoop_skip)
    next
      case True
      have fi: "fi = ?k * sk"
        using multiple_in_window [OF pos True up low] .
      with inside tot pos have klt: "?k < mf" by simp
      then have cons: "[?k ..< mf] = ?k # [Suc ?k ..< mf]"
        by (rule upt_conv_Cons)
      show ?thesis
      proof (cases "mf \<le> Suc ?k")
        case last: True
        with klt have "[Suc ?k ..< mf] = []" by simp
        with cons have "[?k ..< mf] = [?k]" by simp
        then show ?thesis
          using inside pos True last fi by (simp add: analyzeLoop_last)
      next
        case more: False
        have "analyzeLoop d mf sk nTotal (fi + 1)
            (fas @ [frameAt d fi], scs @ [score (frameAt d fi)], calls @ [progressAt nTotal fi]) =
          ((fas @ [frameAt d fi]) @ map (frameAt d) (map (\<lambda>k. k * sk) [Suc ?k ..< mf]),
           (scs @ [score (frameAt d fi)]) @
             map (\<lambda>i. score (frameAt d i)) (map (\<lambda>k. k * sk) [Suc ?k ..< mf]),
           (calls @ [progressAt nTotal fi]) @
             map (progressAt nTotal) (map (\<lambda>k. k * sk) [Suc ?k ..< mf]))"
          using "1.IH"(2) [OF inside _ _ pos tot] True pos more fi
          by (simp add: frameAt_def progressAt_def)
        then show ?thesis
          using inside pos True more fi cons by (simp add: analyzeLoop_more)
      qed
    qed
  qed
qed

lemma processFrames_closed:
  "processFrames d mf sk =
     (map (frameAt d) (retainedIndices mf sk),
      map (\<lambda>i. score (frameAt d i)) (retainedIndices mf sk),
      map (progressAt (mf * sk)) (retainedIndices mf sk))"
proof (cases "sk = 0")
  case True
  then show ?thesis
    by (simp add: processFrames_def retainedIndices_def analyzeLoop_exit)
next
  case False
  then show ?thesis
    using analyzeLoop_closed [of sk "mf * sk" mf "([], [], [])" 0 d]
    by (simp add: processFrames_def retainedIndices_def)
qed

lemma retainedIndices_empty: "retainedIndices mf sk = [] \<longleftrightarrow> mf = 0 \<or> sk = 0"
  by (auto simp: retainedIndices_def)

lemma frameIndex_frameAt: "frameIndex (frameAt d i) = i"
  by (simp add: frameAt_def)

lemma processed_frame_indices:
  "map frameIndex (fst (processFrames d mf sk)) = retainedIndices mf sk"
  by (simp add: processFrames_closed comp_def frameIndex_frameAt)

lemma processedScores_closed:
  "processedScores d mf sk = map (\<lambda>i. score (frameAt d i)) (retainedIndices mf sk)"
  by (simp add: processedScores_def processFrames_closed)

lemma analyzeVideo_calls:
  "fst (analyzeVideo d mf sk) = map (progressAt (mf * sk)) (retainedIndices mf sk) @ [100]"
  by (simp add: analyzeVideo_def processFrames_closed Let_def split_def)

lemma analyzeVideo_degenerate:
  "retainedIndices mf sk = [] \<Longrightarrow> analyzeVideo d mf sk = ([100], degenerateResult)"
  by (simp add: analyzeVideo_def processFrames_closed Let_def degenerateResult_def)

lemma analyzeVideo_aggregate:
  "retainedIndices mf sk \<noteq> [] \<Longrightarrow>
   riskLevel (snd (analyzeVideo d mf sk)) = fst (aggregateVideoRisk (processedScores d mf sk)) \<and>
   riskScore (snd (analyzeVideo d mf sk)) = snd (aggregateVideoRisk (processedScores d mf sk))"
  by (simp add: analyzeVideo_def processFrames_closed processedScores_closed Let_def split_def)

section \<open>Claims about \<open>analyzeVideo\<close>\<close>

text \<open>
  C7. A run that processes no frame returns the degenerate result (LOW, score 0, no
  violations, all frame statistics 0) and calls the progress callback exactly once,
  with 100; this is the case of every run with a frame cap of 0, and the runs that
  process no frame are those with a frame cap or a stride of 0.
\<close>

theorem analyzeVideo_zero_frames:
  "(fst (processFrames d mf sk) = [] \<longrightarrow> analyzeVideo d mf sk = ([100], degenerateResult)) \<and>
   analyzeVideo d 0 sk = ([100], degenerateResult) \<and>
   (fst (processFrames d mf sk) = [] \<longleftrightarrow> mf = 0 \<or> sk = 0)"
proof (intro conjI impI)
  assume "fst (processFrames d mf sk) = []"
  then have "retainedIndices mf sk = []"
    by (simp add: processFrames_closed)
  then show "analyzeVideo d mf sk = ([100], degenerateResult)"
    by (rule analyzeVideo_degenerate)
next
  show "analyzeVideo d 0 sk = ([100], degenerateResult)"
    by (rule analyzeVideo_degenerate) (simp add: retainedIndices_empty)
next
  show "fst (processFrames d mf sk) = [] \<longleftrightarrow> mf = 0 \<or> sk = 0"
    by (simp add: processFrames_closed retainedIndices_empty)
qed

theorem analyzeVideo_zero_frames_witness:
  "fst (processFrames noDetections 5 0) = [] \<and>
   analyzeVideo noDetections 5 0 = ([100], degenerateResult) \<and>
   analyzeVideo noDetections 0 3 = ([100], degenerateResult)"
  using analyzeVideo_zero_frames [of noDetections 5 0] analyzeVideo_zero_frames [of noDetections 0 3]
  by simp

lemma progressAt_bounds: "0 \<le> progressAt t i \<and> progressAt t i \<le> 95"
proof -
  have "0 \<le> dbl (real i / real t)"
    by (rule dbl_nonneg) simp
  then have "0 \<le> dbl (dbl (real i / real t) * 100)"
    by (intro dbl_nonneg) simp
  then have "round (0 :: real) \<le> round (dbl (dbl (real i / real t) * 100))"
    by (rule round_mono)
  then show ?thesis by (simp add: progressAt_def)
qed

lemma progressAt_le_100: "progressAt t i \<le> 100"
  using progressAt_bounds [of t i] by linarith

lemma progressAt_mono: "i \<le> j \<Longrightarrow> progressAt t i \<le> progressAt t j"
proof -
  assume "i \<le> j"
  then have "real i / real t \<le> real j / real t"
    by (simp add: divide_right_mono)
  then have "dbl (real i / real t) \<le> dbl (real j / real t)"
    by (rule dbl_mono)
  then have "dbl (real i / real t) * 100 \<le> dbl (real j / real t) * 100"
    by simp
  then have "dbl (dbl (real i / real t) * 100) \<le> dbl (dbl (real j / real t) * 100)"
    by (rule dbl_mono)
  then have "round (dbl (dbl (real i / real t) * 100))
      \<le> round (dbl (dbl (real j / real t) * 100))"
    by (rule round_mono)
  then show ?thesis by (simp add: progressAt_def)
qed

lemma sorted_retainedIndices: "sorted (retainedIndices mf sk)"
  by (simp add: retainedIndices_def sorted_map sorted_wrt_mono_rel [OF _ sorted_upt])

lemma sorted_progress: "sorted (map (progressAt t) (retainedIndices mf sk))"
  unfolding sorted_map
  by (rule sorted_wrt_mono_rel [OF _ sorted_retainedIndices]) (simp add: progressAt_mono)

lemma progress_scaled:
  "0 < sk \<Longrightarrow>
   progressAt (mf * sk) (k * sk) = min 95 (round (dbl (dbl (real k / real mf) * 100)))"
  by (simp add: progressAt_def)

text \<open>Values of the progress expression in double arithmetic.\<close>

lemma dbl_between:
  assumes "of_int a * 2 powr of_int k \<le> x" "x \<le> of_int b * 2 powr of_int k"
    and "\<bar>a\<bar> < 2 ^ 53" "\<bar>b\<bar> < 2 ^ 53" "- 1074 \<le> k"
  shows "of_int a * 2 powr of_int k \<le> dbl x \<and> dbl x \<le> of_int b * 2 powr of_int k"
  using dbl_mono [OF assms(1)] dbl_mono [OF assms(2)]
  by (simp only: dbl_repr [OF assms(3,5)] dbl_repr [OF assms(4,5)])

lemma round_eqI: "of_int n - 1 / 2 \<le> x \<Longrightarrow> x < of_int n + 1 / 2 \<Longrightarrow> round x = n"
  unfolding round_def by (rule floor_unique) simp_all

lemma scaled_third:
  "of_int 266 * 2 powr of_int (- 3) \<le> dbl (dbl (1 / 3) * 100) \<and>
   dbl (dbl (1 / 3) * 100) \<le> of_int 267 * 2 powr of_int (- 3)"
proof -
  have a: "of_int 21845 * 2 powr of_int (- 16) \<le> dbl (1 / 3) \<and>
           dbl (1 / 3) \<le> of_int 21846 * 2 powr of_int (- 16)"
    by (rule dbl_between) (simp_all add: powr_neg_numeral)
  show ?thesis
    using a by (intro dbl_between) (simp_all add: powr_neg_numeral)
qed

lemma progress_third: "round (dbl (dbl (1 / 3) * 100)) = 33"
  using scaled_third by (intro round_eqI) (simp_all add: powr_neg_numeral)

lemma progress_two_thirds: "round (dbl (dbl (2 / 3) * 100)) = 67"
proof -
  have a: "of_int 43690 * 2 powr of_int (- 16) \<le> dbl (2 / 3) \<and>
           dbl (2 / 3) \<le> of_int 43691 * 2 powr of_int (- 16)"
    by (rule dbl_between) (simp_all add: powr_neg_numeral)
  have b: "of_int 533 * 2 powr of_int (- 3) \<le> dbl (dbl (2 / 3) * 100) \<and>
           dbl (dbl (2 / 3) * 100) \<le> of_int 534 * 2 powr of_int (- 3)"
    using a by (intro dbl_between) (simp_all add: powr_neg_numeral)
  show ?thesis
    using b by (intro round_eqI) (simp_all add: powr_neg_numeral)
qed

text \<open>
  \<open>23 / 40\<close> rounds down to the double \<open>5179139571476070 / 2^53\<close>, and its product with
  100 to \<open>8092405580431359 / 2^47\<close>, just below 57.5.
\<close>

lemma dbl_23_40: "dbl (23 / 40) = 5179139571476070 / 2 ^ 53"
proof -
  have "dbl (23 / 40) = of_int 5179139571476070 * 2 powr (of_int (- 1) - 52)"
    by (rule dbl_eval) (simp_all add: powr_neg_numeral powr_neg_one rne_def)
  then show ?thesis
    by (simp add: powr_neg_numeral)
qed

lemma dbl_23_40_100: "dbl (5179139571476070 / 2 ^ 53 * 100) = 8092405580431359 / 2 ^ 47"
proof -
  have "dbl (5179139571476070 / 2 ^ 53 * 100) =
          of_int 8092405580431359 * 2 powr (of_int 5 - 52)"
    by (rule dbl_eval) (simp_all add: powr_neg_numeral rne_def)
  then show ?thesis
    by (simp add: powr_neg_numeral)
qed

lemma progress_23_40: "round (dbl (dbl (23 / 40) * 100)) = 57"
  unfolding dbl_23_40 dbl_23_40_100
  by (rule round_eqI) simp_all

text \<open>
  C6 (as amended). The progress callback receives, for each processed frame, the
  rounded value \<open>min(95, round((frameIndex / totalEstimatedFrames) \<times> 100))\<close>, the
  quotient and the product in double arithmetic, which for the \<open>k\<close>-th processed frame
  (counting from 0) is \<open>min(95, round((k / maxFrames) \<times> 100))\<close>, and then 100; the
  whole sequence is non-decreasing, every value is an integer from 0 to 100, and the
  last value is 100.
\<close>

theorem analyzeVideo_progress:
  "fst (analyzeVideo d mf sk) =
     map (progressAt (mf * sk)) (map frameIndex (fst (processFrames d mf sk))) @ [100] \<and>
   (k < length (fst (processFrames d mf sk)) \<longrightarrow>
      fst (analyzeVideo d mf sk) ! k =
        min 95 (round (dbl (dbl (real k / real mf) * 100)))) \<and>
   sorted (fst (analyzeVideo d mf sk)) \<and>
   (\<forall>c \<in> set (fst (analyzeVideo d mf sk)). 0 \<le> c \<and> c \<le> 100) \<and>
   last (fst (analyzeVideo d mf sk)) = 100"
proof (intro conjI impI ballI)
  show "fst (analyzeVideo d mf sk) =
     map (progressAt (mf * sk)) (map frameIndex (fst (processFrames d mf sk))) @ [100]"
    by (simp only: analyzeVideo_calls processed_frame_indices)
next
  assume "k < length (fst (processFrames d mf sk))"
  then have k: "k < length (retainedIndices mf sk)"
    by (simp add: processFrames_closed)
  then have pos: "0 < sk" and kmf: "k < mf"
    by (auto simp: retainedIndices_def split: if_splits)
  from kmf pos have "retainedIndices mf sk ! k = k * sk"
    by (simp add: retainedIndices_def)
  with k pos show "fst (analyzeVideo d mf sk) ! k =
      min 95 (round (dbl (dbl (real k / real mf) * 100)))"
    by (simp add: analyzeVideo_calls nth_append progress_scaled)
next
  have "\<forall>c \<in> set (map (progressAt (mf * sk)) (retainedIndices mf sk)). c \<le> 100"
    by (simp add: progressAt_le_100)
  then show "sorted (fst (analyzeVideo d mf sk))"
    by (simp add: analyzeVideo_calls sorted_append sorted_progress del: set_map)
next
  fix c assume "c \<in> set (fst (analyzeVideo d mf sk))"
  then have "c = 100 \<or> (\<exists>i. c = progressAt (mf * sk) i)"
    by (auto simp: analyzeVideo_calls)
  then show "0 \<le> c" using progressAt_bounds by auto
next
  fix c assume "c \<in> set (fst (analyzeVideo d mf sk))"
  then have "c = 100 \<or> (\<exists>i. c = progressAt (mf * sk) i)"
    by (auto simp: analyzeVideo_calls)
  then show "c \<le> 100" using progressAt_le_100 by auto
next
  show "last (fst (analyzeVideo d mf sk)) = 100"
    by (simp add: analyzeVideo_calls)
qed

lemma retainedIndices_3_1: "retainedIndices 3 1 = [0, 1, 2]"
  by (simp add: retainedIndices_def upt_rec)

lemma calls_3_1: "fst (analyzeVideo noDetections 3 1) = [0, 33, 67, 100]"
  unfolding analyzeVideo_calls retainedIndices_3_1
  by (simp add: progressAt_def progress_third progress_two_thirds dbl_zero)

theorem analyzeVideo_progress_witness:
  "fst (analyzeVideo noDetections 3 1) = [0, 33, 67, 100] \<and>
   fst (analyzeVideo noDetections 3 1) ! 2 = min 95 (round (dbl (dbl (real 2 / real 3) * 100))) \<and>
   sorted (fst (analyzeVideo noDetections 3 1)) \<and>
   last (fst (analyzeVideo noDetections 3 1)) = 100 \<and>
   fst (analyzeVideo noDetections 40 1) ! 23 = 57"
proof -
  have len: "(2 :: nat) < length (fst (processFrames noDetections 3 1))"
    unfolding processFrames_closed retainedIndices_3_1 by simp
  have len': "(23 :: nat) < length (fst (processFrames noDetections 40 1))"
    unfolding processFrames_closed by (simp add: retainedIndices_def)
  have "fst (analyzeVideo noDetections 40 1) ! 23 =
      min 95 (round (dbl (dbl (real 23 / real 40) * 100)))"
    using len' analyzeVideo_progress [of noDetections 40 1 23] by blast
  then have late: "fst (analyzeVideo noDetections 40 1) ! 23 = 57"
    by (simp add: progress_23_40)
  show ?thesis
    using len late analyzeVideo_progress [of noDetections 3 1 2] calls_3_1
    by (simp add: progress_two_thirds)
qed

text \<open>
  C6 as stated gives the value without rounding to an integer. In a run with a cap of
  3 frames and a stride of 1, the second call carries 33, not the double nearest to
  \<open>100 / 3\<close>.
\<close>

theorem progress_unrounded_counterexample:
  "real_of_int (fst (analyzeVideo noDetections 3 1) ! 1) \<noteq> claimedProgress 1 3"
  unfolding calls_3_1 claimedProgress_def
  using scaled_third by (simp add: powr_neg_numeral)

section \<open>The risk score and the risk level of a result\<close>

lemma score_bounds:
  "0 \<le> score (computeFrameRisk ds w h) \<and> score (computeFrameRisk ds w h) \<le> 100"
  by (simp add: computeFrameRisk_def Let_def split_def)

lemma processedScores_valid: "validScores (processedScores d mf sk)"
  by (simp add: processedScores_closed validScores_def list_all_iff frameAt_def score_bounds)

lemma processedScores_empty: "processedScores d mf sk = [] \<longleftrightarrow> retainedIndices mf sk = []"
  by (simp add: processedScores_closed)

lemma round_threshold:
  fixes m1 m2 :: real
  assumes "round m1 = round m2" "m1 < of_int T" "of_int T \<le> m2"
  shows "round m1 = T"
proof -
  have "round m1 \<le> round (of_int T :: real)"
    by (rule round_mono) (use assms(2) in simp)
  moreover have "round (of_int T :: real) \<le> round m2"
    by (rule round_mono) (rule assms(3))
  ultimately show ?thesis using assms(1) by simp
qed

lemma equal_score_levels:
  assumes "xs \<noteq> []" "ys \<noteq> []"
    and "snd (aggregateVideoRisk xs) = snd (aggregateVideoRisk ys)"
    and "fst (aggregateVideoRisk xs) \<noteq> fst (aggregateVideoRisk ys)"
  shows "snd (aggregateVideoRisk xs) \<in> {20, 50, 75}"
proof -
  have r: "round (mean xs) = round (mean ys)"
    using assms(1-3) by (simp add: aggregate_nonempty)
  have t: "\<And>T. mean xs < of_int T \<Longrightarrow> of_int T \<le> mean ys \<Longrightarrow> round (mean xs) = T"
    "\<And>T. mean ys < of_int T \<Longrightarrow> of_int T \<le> mean xs \<Longrightarrow> round (mean xs) = T"
    using r round_threshold [of "mean xs" "mean ys"] round_threshold [of "mean ys" "mean xs"]
    by simp_all
  from assms(4) have
    "(mean xs < 20 \<and> 20 \<le> mean ys) \<or> (mean ys < 20 \<and> 20 \<le> mean xs) \<or>
     (mean xs < 50 \<and> 50 \<le> mean ys) \<or> (mean ys < 50 \<and> 50 \<le> mean xs) \<or>
     (mean xs < 75 \<and> 75 \<le> mean ys) \<or> (mean ys < 75 \<and> 75 \<le> mean xs)"
    using assms(1,2) by (auto simp: aggregate_nonempty split: if_splits)
  then have "round (mean xs) = 20 \<or> round (mean xs) = 50 \<or> round (mean xs) = 75"
    using t(1) [of 20] t(2) [of 20] t(1) [of 50] t(2) [of 50] t(1) [of 75] t(2) [of 75]
    by auto
  then show ?thesis using assms(1) by (simp add: aggregate_nonempty)
qed

lemma higher_score_levels:
  assumes "xs \<noteq> []" "ys \<noteq> []"
    and "snd (aggregateVideoRisk xs) < snd (aggregateVideoRisk ys)"
  shows "levelRank (fst (aggregateVideoRisk xs)) \<le> levelRank (fst (aggregateVideoRisk ys))"
proof -
  have "round (mean xs) < round (mean ys)"
    using assms by (simp add: aggregate_nonempty)
  then have "mean xs < mean ys"
    using round_mono [of "mean ys" "mean xs"] by (cases "mean ys \<le> mean xs") auto
  then show ?thesis
    using assms(1,2) by (simp add: aggregate_nonempty)
qed

lemma vehicles_apart:
  assumes "x + 200 \<le> y"
  shows "\<not> js_less (Fin (dbl (1 / 10)))
           (overlapRatio (bbox (vehicleAt x)) (bbox (vehicleAt y)))"
proof -
  have area: "boxArea (bbox (vehicleAt x)) = Fin 30000"
    by (simp add: vehicleAt_def fl_numeral)
  have "disjointBoxes (bbox (vehicleAt x)) (bbox (vehicleAt y))"
    using assms by (simp add: vehicleAt_def)
  then have "iou (bbox (vehicleAt x)) (bbox (vehicleAt y)) = Fin 0"
    using area by (rule iou_disjoint)
  then have "overlapRatio (bbox (vehicleAt x)) (bbox (vehicleAt y)) = Fin 0"
    by (simp only: iou_overlapRatio)
  moreover have "0 \<le> dbl (1 / 10)"
    by (rule dbl_nonneg) simp
  ultimately show ?thesis
    by (simp only: js_less.simps)
qed

lemma person_upper_half:
  "\<not> js_less (fdiv (Fin 1080) (Fin 2)) (snd (midpoint (bbox (personAt x))))"
  by (simp add: personAt_def fl_numeral)

lemma quiet_frame_score:
  assumes vs: "filter (\<lambda>d. className d \<in>
                  {''car'', ''motorcycle'', ''bus'', ''truck'', ''bicycle''}) ds = map vehicleAt xs"
    and ps: "filter (\<lambda>d. className d = ''person'') ds = map personAt ys"
    and apart: "sorted_wrt (\<lambda>x y. x + 200 \<le> y) xs"
  shows "score (computeFrameRisk ds frameWidth frameHeight) =
         max 0 (min (3 * real (length xs) + 5 * real (length ys)) 100)"
proof -
  have no_overlap:
    "filter (\<lambda>(i, j). i < j \<and>
        js_less (Fin (dbl (1 / 10)))
          (overlapRatio (bbox (map vehicleAt xs ! i)) (bbox (map vehicleAt xs ! j))))
      (List.product [0 ..< length xs] [0 ..< length xs]) = []"
    using apart
    by (auto simp: filter_empty_conv sorted_wrt_iff_nth_less vehicles_apart
        simp del: overlapRatio.simps)
  have no_proximity:
    "filter (\<lambda>(v, p).
        js_less (fdiv (Fin 1080) (Fin 2)) (snd (midpoint (bbox p))) \<and>
        js_less (euclidean (midpoint (bbox v)) (midpoint (bbox p)))
          (fmul (Fin (dbl (2 / 10))) (Fin 1920)))
      (List.product (map vehicleAt xs) (map personAt ys)) = []"
    unfolding filter_empty_conv
    using person_upper_half by auto
  show ?thesis
    unfolding computeFrameRisk_refines specFrameRisk_def Let_def vs ps frameWidth_def
      frameHeight_def length_map no_overlap no_proximity
    by simp
qed

lemma frames_runA_0:
  "filter (\<lambda>d. className d \<in> {''car'', ''motorcycle'', ''bus'', ''truck'', ''bicycle''})
     (runA 0) = map vehicleAt [0, 300]"
  "filter (\<lambda>d. className d = ''person'') (runA 0) = map personAt []"
  by (simp_all add: runA_def vehicleAt_def)

lemma frames_runA_1:
  "filter (\<lambda>d. className d \<in> {''car'', ''motorcycle'', ''bus'', ''truck'', ''bicycle''})
     (runA 1) = map vehicleAt [0, 300, 600, 900, 1200, 1500]"
  "filter (\<lambda>d. className d = ''person'') (runA 1) = map personAt [100, 700, 1300]"
  by (simp_all add: runA_def vehicleAt_def personAt_def)

lemma frames_runB_0:
  "filter (\<lambda>d. className d \<in> {''car'', ''motorcycle'', ''bus'', ''truck'', ''bicycle''})
     (runB 0) = map vehicleAt [0, 300, 600, 900, 1200]"
  "filter (\<lambda>d. className d = ''person'') (runB 0) = map personAt [100]"
  by (simp_all add: runB_def vehicleAt_def personAt_def)

lemma score_runA_0: "score (frameAt runA 0) = 6"
  unfolding frameAt_def using quiet_frame_score [OF frames_runA_0] by simp

lemma score_runA_1: "score (frameAt runA 1) = 33"
  unfolding frameAt_def using quiet_frame_score [OF frames_runA_1] by simp

lemma score_runB_0: "score (frameAt runB 0) = 20"
  unfolding frameAt_def using quiet_frame_score [OF frames_runB_0] by simp

lemma retainedIndices_small: "retainedIndices 2 1 = [0, 1]" "retainedIndices 1 1 = [0]"
  by (simp_all add: retainedIndices_def upt_rec)

lemma scores_runA: "processedScores runA 2 1 = [6, 33]"
  unfolding processedScores_closed retainedIndices_small list.map score_runA_0 score_runA_1
  by (rule refl)

lemma scores_runB: "processedScores runB 1 1 = [20]"
  unfolding processedScores_closed retainedIndices_small list.map score_runB_0
  by (rule refl)

lemma result_runA:
  "riskLevel (snd (analyzeVideo runA 2 1)) = LOW \<and> riskScore (snd (analyzeVideo runA 2 1)) = 20"
proof -
  have "retainedIndices 2 1 \<noteq> []" unfolding retainedIndices_small by simp
  from analyzeVideo_aggregate [OF this, of runA] show ?thesis
    unfolding scores_runA by (simp add: aggregateVideoRisk_def round_def floor_unique)
qed

lemma result_runB:
  "riskLevel (snd (analyzeVideo runB 1 1)) = MEDIUM \<and>
   riskScore (snd (analyzeVideo runB 1 1)) = 20"
proof -
  have "retainedIndices 1 1 \<noteq> []" unfolding retainedIndices_small by simp
  from analyzeVideo_aggregate [OF this, of runB] show ?thesis
    unfolding scores_runB by (simp add: aggregateVideoRisk_def)
qed

lemma analyzeVideo_no_frames:
  "processedScores d mf sk = [] \<Longrightarrow>
   riskScore (snd (analyzeVideo d mf sk)) = 0 \<and> riskLevel (snd (analyzeVideo d mf sk)) = LOW"
  by (simp add: processedScores_empty analyzeVideo_degenerate degenerateResult_def)

lemma analyzeVideo_some_frames:
  "processedScores d mf sk \<noteq> [] \<Longrightarrow>
   riskLevel (snd (analyzeVideo d mf sk)) = fst (aggregateVideoRisk (processedScores d mf sk)) \<and>
   riskScore (snd (analyzeVideo d mf sk)) = snd (aggregateVideoRisk (processedScores d mf sk))"
  by (simp add: processedScores_empty analyzeVideo_aggregate)

lemma aggregate_score_nonneg:
  assumes "xs \<noteq> []" "validScores xs"
  shows "0 \<le> snd (aggregateVideoRisk xs)"
proof -
  have "0 \<le> mean xs" using validScores_mean_bounds [OF assms(2,1)] by simp
  then have "round (0 :: real) \<le> round (mean xs)" by (rule round_mono)
  then show ?thesis using assms(1) by (simp add: aggregate_nonempty)
qed

lemma aggregate_score_zero_low:
  assumes "xs \<noteq> []" "snd (aggregateVideoRisk xs) = 0"
  shows "fst (aggregateVideoRisk xs) = LOW"
proof -
  have "round (mean xs) = 0" using assms by (simp add: aggregate_nonempty)
  then have "mean xs < 20"
    using round_mono [of 20 "mean xs"] by (cases "mean xs < 20") auto
  then show ?thesis using assms(1) by (simp add: aggregate_nonempty)
qed

text \<open>
  C3 (as amended). For every completed analysis, \<open>riskScore\<close> is the rounded mean of
  the processed frame scores when a frame was processed and 0 otherwise, and
  \<open>riskLevel\<close> is the tier of the unrounded mean by the tier table (LOW when no frame
  was processed). A result with a higher \<open>riskScore\<close> never has a lower tier. Two
  results with equal \<open>riskScore\<close> have equal tiers unless that score is 20, 50 or 75.
\<close>

theorem analysis_risk_invariant:
  "(processedScores dA mA sA \<noteq> [] \<longrightarrow>
      riskScore (snd (analyzeVideo dA mA sA)) = round (mean (processedScores dA mA sA)) \<and>
      tierOfMean (mean (processedScores dA mA sA)) = Some (riskLevel (snd (analyzeVideo dA mA sA)))) \<and>
   (processedScores dA mA sA = [] \<longrightarrow>
      riskScore (snd (analyzeVideo dA mA sA)) = 0 \<and> riskLevel (snd (analyzeVideo dA mA sA)) = LOW) \<and>
   (riskScore (snd (analyzeVideo dA mA sA)) < riskScore (snd (analyzeVideo dB mB sB)) \<longrightarrow>
      levelRank (riskLevel (snd (analyzeVideo dA mA sA)))
        \<le> levelRank (riskLevel (snd (analyzeVideo dB mB sB)))) \<and>
   (riskScore (snd (analyzeVideo dA mA sA)) = riskScore (snd (analyzeVideo dB mB sB)) \<and>
    riskLevel (snd (analyzeVideo dA mA sA)) \<noteq> riskLevel (snd (analyzeVideo dB mB sB)) \<longrightarrow>
      riskScore (snd (analyzeVideo dA mA sA)) \<in> {20, 50, 75})"
proof (intro conjI impI)
  let ?xs = "processedScores dA mA sA" and ?ys = "processedScores dB mB sB"
  let ?rA = "snd (analyzeVideo dA mA sA)" and ?rB = "snd (analyzeVideo dB mB sB)"
  {
    assume ne: "?xs \<noteq> []"
    show "riskScore ?rA = round (mean ?xs)"
      using analyzeVideo_some_frames [OF ne] ne by (simp add: aggregate_nonempty)
    have "0 \<le> mean ?xs \<and> mean ?xs \<le> 100"
      using validScores_mean_bounds [OF processedScores_valid ne] .
    then show "tierOfMean (mean ?xs) = Some (riskLevel ?rA)"
      using analyzeVideo_some_frames [OF ne] ne
      by (simp add: aggregate_nonempty tierOfMean_def)
  }
  {
    assume "?xs = []"
    then show "riskScore ?rA = 0" "riskLevel ?rA = LOW"
      using analyzeVideo_no_frames by blast+
  }
  {
    assume lt: "riskScore ?rA < riskScore ?rB"
    show "levelRank (riskLevel ?rA) \<le> levelRank (riskLevel ?rB)"
    proof (cases "?xs = []")
      case True
      then show ?thesis using analyzeVideo_no_frames [of dA mA sA] by simp
    next
      case xs: False
      show ?thesis
      proof (cases "?ys = []")
        case True
        then have "riskScore ?rB = 0" using analyzeVideo_no_frames by blast
        moreover have "0 \<le> riskScore ?rA"
          using analyzeVideo_some_frames [OF xs]
            aggregate_score_nonneg [OF xs processedScores_valid] by simp
        ultimately show ?thesis using lt by simp
      next
        case ys: False
        show ?thesis
          using higher_score_levels [OF xs ys] lt
            analyzeVideo_some_frames [OF xs] analyzeVideo_some_frames [OF ys]
          by simp
      qed
    qed
  }
  {
    assume eq: "riskScore ?rA = riskScore ?rB \<and> riskLevel ?rA \<noteq> riskLevel ?rB"
    show "riskScore ?rA \<in> {20, 50, 75}"
    proof (cases "?xs = []")
      case xs: True
      show ?thesis
      proof (cases "?ys = []")
        case True
        with xs eq show ?thesis
          using analyzeVideo_no_frames [of dA mA sA] analyzeVideo_no_frames [of dB mB sB]
          by simp
      next
        case ys: False
        have "snd (aggregateVideoRisk ?ys) = 0"
          using eq analyzeVideo_no_frames [OF xs] analyzeVideo_some_frames [OF ys] by simp
        from aggregate_score_zero_low [OF ys this] have "riskLevel ?rB = LOW"
          using analyzeVideo_some_frames [OF ys] by simp
        with eq analyzeVideo_no_frames [OF xs] show ?thesis by simp
      qed
    next
      case xs: False
      show ?thesis
      proof (cases "?ys = []")
        case ys: True
        have "snd (aggregateVideoRisk ?xs) = 0"
          using eq analyzeVideo_no_frames [OF ys] analyzeVideo_some_frames [OF xs] by simp
        from aggregate_score_zero_low [OF xs this] have "riskLevel ?rA = LOW"
          using analyzeVideo_some_frames [OF xs] by simp
        with eq analyzeVideo_no_frames [OF ys] show ?thesis by simp
      next
        case ys: False
        show ?thesis
          using equal_score_levels [OF xs ys] eq
            analyzeVideo_some_frames [OF xs] analyzeVideo_some_frames [OF ys]
          by simp
      qed
    qed
  }
qed

theorem analysis_risk_invariant_witness:
  "processedScores runA 2 1 = [6, 33] \<and>
   riskScore (snd (analyzeVideo runA 2 1)) = round (mean [6, 33]) \<and>
   tierOfMean (mean [6, 33]) = Some (riskLevel (snd (analyzeVideo runA 2 1))) \<and>
   riskScore (snd (analyzeVideo noDetections 0 1)) = 0 \<and>
   riskLevel (snd (analyzeVideo noDetections 0 1)) = LOW \<and>
   riskScore (snd (analyzeVideo noDetections 0 1)) < riskScore (snd (analyzeVideo runB 1 1)) \<and>
   levelRank (riskLevel (snd (analyzeVideo noDetections 0 1)))
     \<le> levelRank (riskLevel (snd (analyzeVideo runB 1 1))) \<and>
   riskScore (snd (analyzeVideo runA 2 1)) \<in> {20, 50, 75}"
proof -
  have e: "processedScores noDetections 0 1 = []"
    by (simp add: processedScores_closed retainedIndices_def)
  have z: "riskScore (snd (analyzeVideo noDetections 0 1)) = 0"
    using analyzeVideo_no_frames [OF e] by simp
  show ?thesis
    using analysis_risk_invariant [of runA 2 1 runB 1 1]
      analysis_risk_invariant [of noDetections 0 1 runB 1 1]
      scores_runA e z result_runA result_runB
    by simp
qed

text \<open>
  C3 as stated makes \<open>riskLevel\<close> a function of \<open>riskScore\<close>. Run A has frame scores 6
  and 33, mean 19.5: LOW with score 20. Run B has the frame score 20: MEDIUM with
  score 20.
\<close>

theorem level_not_function_of_score_counterexample:
  "riskScore (snd (analyzeVideo runA 2 1)) = riskScore (snd (analyzeVideo runB 1 1)) \<and>
   riskLevel (snd (analyzeVideo runA 2 1)) \<noteq> riskLevel (snd (analyzeVideo runB 1 1))"
  using result_runA result_runB by simp

end
